theory Spec2Isabelle
  imports Main "HOL-Library.Sublist"
begin

section \<open>Python's string operations\<close>

text \<open>
  The shell wrapper of \<^verbatim>\<open>composio/tools/env/host/shell.py\<close> works on Python
  \<^verbatim>\<open>str\<close> and \<^verbatim>\<open>bytes\<close> values. A \<^verbatim>\<open>str\<close> is modelled as a
  \<^typ>\<open>string\<close> whose characters stand for the code points U+0000 to U+00FF; the
  operations below follow CPython on that range. Undecoded output is kept apart as
  \<open>bytes\<close>; the codec that turns it into text is a parameter of the model.
\<close>

type_synonym bytes = string

text \<open>\<^verbatim>\<open>str.isspace\<close> on one character: TAB to CR, FS to US, space, NEL and NBSP.\<close>

definition isspace :: "char \<Rightarrow> bool" where
  "isspace c = (of_char c \<in> {9, 10, 11, 12, 13, 28, 29, 30, 31, 32, 133, 160 :: nat})"

definition lstrip :: "string \<Rightarrow> string" where
  "lstrip s = dropWhile isspace s"

definition rstrip :: "string \<Rightarrow> string" where
  "rstrip s = rev (dropWhile isspace (rev s))"

definition strip :: "string \<Rightarrow> string" where
  "strip s = rstrip (lstrip s)"

text \<open>\<^verbatim>\<open>str.lower\<close>: A to Z and the capital letters of Latin-1 move up by 32.\<close>

definition lower_char :: "char \<Rightarrow> char" where
  "lower_char c =
     (let n = of_char c :: nat
      in if (65 \<le> n \<and> n \<le> 90) \<or> (192 \<le> n \<and> n \<le> 222 \<and> n \<noteq> 215)
         then char_of (n + 32) else c)"

definition lower :: "string \<Rightarrow> string" where
  "lower s = map lower_char s"

text \<open>\<^verbatim>\<open>s.split()\<close>: the maximal runs of characters that are not whitespace.\<close>

fun split_ws_aux :: "string \<Rightarrow> string \<Rightarrow> string list" where
  "split_ws_aux acc [] = (if acc = [] then [] else [acc])"
| "split_ws_aux acc (c # cs) =
     (if isspace c
      then (if acc = [] then split_ws_aux [] cs else acc # split_ws_aux [] cs)
      else split_ws_aux (acc @ [c]) cs)"

definition split_ws :: "string \<Rightarrow> string list" where
  "split_ws s = split_ws_aux [] s"

text \<open>
  \<^verbatim>\<open>s.split(sep)\<close> for a separator that is not empty (every call site passes a
  literal or a marker): the fields between the occurrences of \<open>sep\<close>, found from left to
  right without overlap.
\<close>

function split_sep_aux :: "string \<Rightarrow> string \<Rightarrow> string \<Rightarrow> string list" where
  "split_sep_aux sep acc [] = [acc]"
| "split_sep_aux sep acc (c # cs) =
     (if sep \<noteq> [] \<and> prefix sep (c # cs)
      then acc # split_sep_aux sep [] (drop (length sep) (c # cs))
      else split_sep_aux sep (acc @ [c]) cs)"
  by pat_completeness auto
termination
  by (relation "measure (\<lambda>(sep, acc, s). length s)") auto

definition str_split :: "string \<Rightarrow> string \<Rightarrow> string list" where
  "str_split sep s = split_sep_aux sep [] s"

text \<open>\<^verbatim>\<open>s.replace(old, new)\<close> for \<open>old\<close> not empty.\<close>

function str_replace :: "string \<Rightarrow> string \<Rightarrow> string \<Rightarrow> string" where
  "str_replace old new [] = []"
| "str_replace old new (c # cs) =
     (if old \<noteq> [] \<and> prefix old (c # cs)
      then new @ str_replace old new (drop (length old) (c # cs))
      else c # str_replace old new cs)"
  by pat_completeness auto
termination
  by (relation "measure (\<lambda>(old, new, s). length s)") auto

text \<open>
  \<^verbatim>\<open>s.splitlines()\<close>: the line boundaries are LF, VT, FF, CR, FS, GS, RS and NEL, and
  CR LF counts once; a boundary at the very end opens no further line.
\<close>

definition is_linebreak :: "char \<Rightarrow> bool" where
  "is_linebreak c = (of_char c \<in> {10, 11, 12, 13, 28, 29, 30, 133 :: nat})"

fun splitlines_aux :: "string \<Rightarrow> string \<Rightarrow> string list" where
  "splitlines_aux acc [] = (if acc = [] then [] else [acc])"
| "splitlines_aux acc [c] = (if is_linebreak c then [acc] else [acc @ [c]])"
| "splitlines_aux acc (c # d # cs) =
     (if c = CHR 0x0D \<and> d = CHR 0x0A then acc # splitlines_aux [] cs
      else if is_linebreak c then acc # splitlines_aux [] (d # cs)
      else splitlines_aux (acc @ [c]) (d # cs))"

definition splitlines :: "string \<Rightarrow> string list" where
  "splitlines s = splitlines_aux [] s"

text \<open>\<^verbatim>\<open>sep.join(xs)\<close>.\<close>

fun join :: "string \<Rightarrow> string list \<Rightarrow> string" where
  "join sep [] = []"
| "join sep [x] = x"
| "join sep (x # y # ys) = x @ sep @ join sep (y # ys)"

text \<open>
  \<^verbatim>\<open>m in s\<close> is \<^term>\<open>sublist m s\<close>, \<^verbatim>\<open>s.startswith(m)\<close> is \<^term>\<open>prefix m s\<close> and
  \<^verbatim>\<open>s.endswith(m)\<close> is \<^term>\<open>suffix m s\<close>. \<^verbatim>\<open>s.find(m)\<close> is the index of the first
  occurrence, or \<open>-1\<close>; \<^verbatim>\<open>s[:i]\<close> counts a negative \<open>i\<close> from the end.
\<close>

fun str_find :: "string \<Rightarrow> string \<Rightarrow> int" where
  "str_find [] m = (if m = [] then 0 else - 1)"
| "str_find (c # cs) m =
     (if prefix m (c # cs) then 0
      else (let r = str_find cs m in if r < 0 then - 1 else r + 1))"

definition slice_to :: "string \<Rightarrow> int \<Rightarrow> string" where
  "slice_to s i = (if i < 0 then take (length s - nat (- i)) s else take (nat i) s)"

text \<open>
  \<^verbatim>\<open>int(s)\<close> in base ten: surrounding whitespace, one optional sign, then digits,
  where single underscores may stand between digits. \<open>None\<close> is the \<^verbatim>\<open>ValueError\<close>.
\<close>

definition is_digit :: "char \<Rightarrow> bool" where
  "is_digit c = (48 \<le> (of_char c :: nat) \<and> (of_char c :: nat) \<le> 57)"

definition digit_val :: "char \<Rightarrow> int" where
  "digit_val c = int (of_char c) - 48"

fun parse_digits :: "int \<Rightarrow> string \<Rightarrow> int option" where
  "parse_digits acc [] = Some acc"
| "parse_digits acc [c] = (if is_digit c then Some (acc * 10 + digit_val c) else None)"
| "parse_digits acc (c # d # cs) =
     (if is_digit c then parse_digits (acc * 10 + digit_val c) (d # cs)
      else if c = CHR ''_'' \<and> is_digit d then parse_digits (acc * 10 + digit_val d) cs
      else None)"

definition parse_nat :: "string \<Rightarrow> int option" where
  "parse_nat s =
     (case s of
        [] \<Rightarrow> None
      | c # cs \<Rightarrow> if is_digit c then parse_digits (digit_val c) cs else None)"

definition py_int :: "string \<Rightarrow> int option" where
  "py_int s =
     (case strip s of
        [] \<Rightarrow> None
      | c # cs \<Rightarrow>
          if c = CHR ''-'' then map_option uminus (parse_nat cs)
          else if c = CHR ''+'' then parse_nat cs
          else parse_nat (c # cs))"

text \<open>\<^verbatim>\<open>str(i)\<close> of an integer, as an f-string prints it.\<close>

fun str_of_nat :: "nat \<Rightarrow> string" where
  "str_of_nat n =
     (if n < 10 then [char_of (48 + n)]
      else str_of_nat (n div 10) @ [char_of (48 + n mod 10)])"

declare str_of_nat.simps [simp del]

definition str_of_int :: "int \<Rightarrow> string" where
  "str_of_int i = (if i < 0 then CHR ''-'' # str_of_nat (nat (- i)) else str_of_nat (nat i))"

section \<open>The interactivity guard\<close>

text \<open>The module constants \<^verbatim>\<open>_NOWAIT_CMDS\<close> and \<^verbatim>\<open>_INTERACTIVE_COMMANDS\<close>.\<close>

definition NOWAIT_CMDS :: "string list" where
  "NOWAIT_CMDS = [''cd'', ''ls'', ''pwd'']"

definition INTERACTIVE_COMMANDS :: "string list" where
  "INTERACTIVE_COMMANDS =
     [''tail -f'', ''watch'', ''top'', ''htop'', ''less'', ''more'', ''vim'', ''nano'', ''vi'']"

text \<open>
  \<^verbatim>\<open>HostShell._is_interactive_command\<close>. The loop over the clauses skips a clause
  without a token and returns at the first clause that matches a catalog entry.
\<close>

fun interactive_loop :: "string list \<Rightarrow> bool" where
  "interactive_loop [] = False"
| "interactive_loop (subcmd # rest) =
     (let subcmd = strip (lower subcmd);
          cmd_parts = split_ws subcmd
      in if cmd_parts = [] then interactive_loop rest
         else if list_ex (\<lambda>interactive_cmd.
                    hd cmd_parts = hd (split_ws interactive_cmd) \<and> prefix interactive_cmd subcmd)
                  INTERACTIVE_COMMANDS
         then True
         else interactive_loop rest)"

definition is_interactive_command :: "string \<Rightarrow> bool" where
  "is_interactive_command cmd = interactive_loop (str_split '';'' (str_replace ''&&'' '';'' cmd))"

section \<open>Errors, effects and the runtime\<close>

text \<open>
  A message built by an f-string is a list of parts; \<open>BufferRepr err out\<close> is the
  rendering of the dictionary of the two accumulation buffers (standard error first).
\<close>

datatype msg_part = Lit string | BufferRepr bytes bytes

text \<open>
  The exceptions the module raises or lets through. The session contract's
  \<open>InteractiveCommandRejected\<close> is the \<open>ValueError\<close> of \<^verbatim>\<open>exec\<close>, its
  \<open>ProcessExited\<close> the \<open>RuntimeError\<close> of \<^verbatim>\<open>_read\<close> and its \<open>ReadTimeout\<close> the
  \<open>TimeoutError\<close>.
\<close>

datatype error =
    ValueError string
  | IndexError
  | UnicodeDecodeError
  | RuntimeError "msg_part list"
  | TimeoutError "msg_part list"

text \<open>Durations are in milliseconds: \<^verbatim>\<open>time.sleep(0.3)\<close> is \<open>Sleep 300\<close>.\<close>

datatype effect = Sleep nat | RunPs | ExecCommand string | Send bytes

text \<open>
  What the module takes from its surroundings: the session id of \<^verbatim>\<open>generate_id()\<close>,
  the interpreter's \<^verbatim>\<open>hash\<close>, and the codec (\<open>decode b = None\<close> is a
  \<^verbatim>\<open>UnicodeDecodeError\<close>).
\<close>

record runtime =
  session_id :: string
  hash :: "string \<Rightarrow> int"
  decode :: "bytes \<Rightarrow> string option"
  encode :: "string \<Rightarrow> bytes"

section \<open>Completion polling of the local session\<close>

text \<open>
  \<^verbatim>\<open>all(cmd.split()[0] in _NOWAIT_CMDS for cmd in commands)\<close>: evaluated clause by
  clause, it stops at the first clause outside the list, and taking the first token of a
  clause without one raises \<^verbatim>\<open>IndexError\<close>.
\<close>

fun all_nowait :: "string list \<Rightarrow> error + bool" where
  "all_nowait [] = Inr True"
| "all_nowait (cmd # cmds) =
     (case split_ws cmd of
        [] \<Rightarrow> Inl IndexError
      | tok # _ \<Rightarrow> if tok \<in> set NOWAIT_CMDS then all_nowait cmds else Inr False)"

text \<open>The loop over the lines of the process listing.\<close>

fun ps_loop :: "string list \<Rightarrow> string list \<Rightarrow> bool" where
  "ps_loop commands [] = True"
| "ps_loop commands (process # rest) =
     (let process = strip process
      in if list_ex (\<lambda>command. process = command \<or> prefix (command @ '' '') process) commands
         then False
         else ps_loop commands rest)"

text \<open>
  \<^verbatim>\<open>HostShell._has_command_exited\<close>; \<open>ps_out\<close> is what \<^verbatim>\<open>ps -e -o args=\<close> prints
  when it is run. The result comes with the effects performed.
\<close>

definition has_command_exited :: "runtime \<Rightarrow> string \<Rightarrow> bytes \<Rightarrow> effect list \<times> (error + bool)" where
  "has_command_exited rt cmd ps_out =
     (let commands = map strip (str_split ''&&'' cmd)
      in case all_nowait commands of
           Inl e \<Rightarrow> ([], Inl e)
         | Inr True \<Rightarrow> ([Sleep 300], Inr True)
         | Inr False \<Rightarrow>
             (case decode rt ps_out of
                None \<Rightarrow> ([RunPs], Inl UnicodeDecodeError)
              | Some output \<Rightarrow> ([RunPs], Inr (ps_loop commands (tl (splitlines output))))))"

section \<open>The output reader of the local session\<close>

text \<open>
  One \<open>tick\<close> is what one round of the polling loop of \<^verbatim>\<open>HostShell._read\<close> observes:
  the time gone since the previous reading of the clock (the clock never runs
  backwards), the process listing, and for each descriptor whether \<^verbatim>\<open>select\<close> reports
  it readable and what \<^verbatim>\<open>os.read\<close> then returns.
\<close>

record tick =
  elapsed :: nat
  ps_output :: bytes
  rd_stderr :: "bytes option"
  rd_stdout :: "bytes option"

text \<open>The local variables of \<^verbatim>\<open>_read\<close>.\<close>

record rstate =
  buf_stderr :: bytes
  buf_stdout :: bytes
  stdout_data :: "string option"
  stderr_data :: "string option"
  status_stdout :: bool
  status_stderr :: bool

definition init_rstate :: rstate where
  "init_rstate =
     \<lparr>buf_stderr = [], buf_stdout = [], stdout_data = None, stderr_data = None,
      status_stdout = False, status_stderr = False\<rparr>"

text \<open>
  The body of the loop from \<^verbatim>\<open>select\<close> to the marker test. The flag returned is
  \<^verbatim>\<open>markers_found\<close> at the \<^verbatim>\<open>break\<close>.
\<close>

definition truncate_at :: "string option \<Rightarrow> string \<Rightarrow> string" where
  "truncate_at marker s_data =
     (case marker of
        None \<Rightarrow> s_data
      | Some m \<Rightarrow> if m \<noteq> [] then slice_to s_data (str_find s_data m) else s_data)"

definition poll_streams ::
  "runtime \<Rightarrow> string option \<Rightarrow> string option \<Rightarrow> rstate \<Rightarrow> tick \<Rightarrow> error + rstate \<times> bool" where
  "poll_streams rt command_marker stderr_marker s tk =
     (if rd_stderr tk = None \<and> rd_stdout tk = None then Inr (s, False)
      else
        let s1 = (case rd_stderr tk of
                    None \<Rightarrow> s
                  | Some data \<Rightarrow>
                      if status_stderr s then s else s\<lparr>buf_stderr := buf_stderr s @ data\<rparr>);
            s2 = (case rd_stdout tk of
                    None \<Rightarrow> s1
                  | Some data \<Rightarrow>
                      if status_stdout s1 then s1 else s1\<lparr>buf_stdout := buf_stdout s1 @ data\<rparr>)
        in case decode rt (buf_stdout s2) of
             None \<Rightarrow> Inl UnicodeDecodeError
           | Some out \<Rightarrow>
               (case decode rt (buf_stderr s2) of
                  None \<Rightarrow> Inl UnicodeDecodeError
                | Some err \<Rightarrow>
                    let out_missing = (case command_marker of
                                         None \<Rightarrow> False | Some m \<Rightarrow> \<not> sublist m out);
                        err_missing = (case stderr_marker of
                                         None \<Rightarrow> False | Some m \<Rightarrow> \<not> sublist m err);
                        s3 = s2\<lparr>status_stdout := status_stdout s2 \<or> \<not> out_missing,
                                status_stderr := status_stderr s2 \<or> \<not> err_missing\<rparr>
                    in if \<not> out_missing \<and> \<not> err_missing
                       then Inr (s3\<lparr>stdout_data := Some (truncate_at command_marker out),
                                     stderr_data := Some (truncate_at stderr_marker err)\<rparr>, True)
                       else Inr (s3\<lparr>stdout_data := Some out, stderr_data := Some err\<rparr>, False)))"

text \<open>
  The \<^verbatim>\<open>while time.time() < end_time\<close> loop. Each round takes one tick; \<open>now\<close> is the
  last reading of the clock. The result is \<open>None\<close> when the ticks run out before the
  loop ends.
\<close>

fun read_loop ::
  "runtime \<Rightarrow> string option \<Rightarrow> string option \<Rightarrow> string option \<Rightarrow> bool \<Rightarrow> nat \<Rightarrow>
   nat \<Rightarrow> rstate \<Rightarrow> tick list \<Rightarrow> (error + rstate \<times> nat) option" where
  "read_loop rt cmd command_marker stderr_marker wait end_time now s [] = None"
| "read_loop rt cmd command_marker stderr_marker wait end_time now s (tk # tks) =
     (let now = now + elapsed tk;
          no_cmd = (cmd = None \<or> cmd = Some [])
      in if \<not> now < end_time then Some (Inr (s, now))
         else
           case (if wait \<and> \<not> no_cmd
                 then snd (has_command_exited rt (case cmd of Some c \<Rightarrow> c | None \<Rightarrow> []) (ps_output tk))
                 else Inr True) of
             Inl e \<Rightarrow> Some (Inl e)
           | Inr False \<Rightarrow> read_loop rt cmd command_marker stderr_marker wait end_time now s tks
           | Inr True \<Rightarrow>
               (case poll_streams rt command_marker stderr_marker s tk of
                  Inl e \<Rightarrow> Some (Inl e)
                | Inr (s', found) \<Rightarrow>
                    if found \<or> no_cmd then Some (Inr (s', now))
                    else read_loop rt cmd command_marker stderr_marker wait end_time now s' tks))"

text \<open>
  What \<^verbatim>\<open>_read\<close> sees of the process: the clock at entry, the ticks of the loop, and
  after the loop the result of \<^verbatim>\<open>poll()\<close> and the time gone before the last reading
  of the clock.
\<close>

record read_env =
  start_time :: nat
  ticks :: "tick list"
  returncode :: "int option"
  final_elapsed :: nat

definition backtick :: string where
  "backtick = [CHR 0x60]"

definition cmd_none_message :: string where
  "cmd_none_message =
     backtick @ ''cmd'' @ backtick @ '' cannot be '' @ backtick @ ''None'' @ backtick @
     '' when '' @ backtick @ ''wait'' @ backtick @ '' is set to '' @ backtick @ ''True'' @ backtick"

definition exited_message :: "rstate \<Rightarrow> msg_part list" where
  "exited_message s =
     [Lit ''Subprocess exited unexpectedly.\<newline>Current buffer: '',
      BufferRepr (buf_stderr s) (buf_stdout s)]"

definition timeout_message :: "rstate \<Rightarrow> msg_part list" where
  "timeout_message s =
     [Lit ''Timeout reached while reading from subprocess.\<newline>Current buffer: '',
      BufferRepr (buf_stderr s) (buf_stdout s),
      Lit (''. Note that interactive commands are not supported '' @
           ''and can timeout. Use a corresponding non-interactive command if possible.'')]"

definition data_or_buffer :: "runtime \<Rightarrow> string option \<Rightarrow> bytes \<Rightarrow> error + string" where
  "data_or_buffer rt s_data buf =
     (case s_data of
        Some d \<Rightarrow> Inr d
      | None \<Rightarrow> (case decode rt buf of None \<Rightarrow> Inl UnicodeDecodeError | Some d \<Rightarrow> Inr d))"

definition HostShell_read ::
  "runtime \<Rightarrow> string option \<Rightarrow> string option \<Rightarrow> string option \<Rightarrow> bool \<Rightarrow> nat \<Rightarrow>
   read_env \<Rightarrow> (error + string \<times> string) option" where
  "HostShell_read rt cmd command_marker stderr_marker wait timeout env =
     (if wait \<and> cmd = None then Some (Inl (ValueError cmd_none_message))
      else
        let end_time = start_time env + timeout
        in case read_loop rt cmd command_marker stderr_marker wait end_time (start_time env)
                  init_rstate (ticks env) of
             None \<Rightarrow> None
           | Some (Inl e) \<Rightarrow> Some (Inl e)
           | Some (Inr (s, now)) \<Rightarrow>
               if returncode env \<noteq> None then Some (Inl (RuntimeError (exited_message s)))
               else if now + final_elapsed env \<ge> end_time
               then Some (Inl (TimeoutError (timeout_message s)))
               else
                 (case data_or_buffer rt (stdout_data s) (buf_stdout s) of
                    Inl e \<Rightarrow> Some (Inl e)
                  | Inr out \<Rightarrow>
                      (case data_or_buffer rt (stderr_data s) (buf_stderr s) of
                         Inl e \<Rightarrow> Some (Inl e)
                       | Inr err \<Rightarrow> Some (Inr (out, err)))))"

section \<open>The marker protocol and \<^verbatim>\<open>HostShell.exec\<close>\<close>

text \<open>\<^verbatim>\<open>Shell.sanitize_command\<close> and \<^verbatim>\<open>HostShell._write\<close>; a closed pipe is the
  \<^verbatim>\<open>BrokenPipeError\<close> that \<^verbatim>\<open>_write\<close> turns into a \<^verbatim>\<open>RuntimeError\<close>.\<close>

definition sanitize_command :: "runtime \<Rightarrow> string \<Rightarrow> bytes" where
  "sanitize_command rt cmd = encode rt (rstrip cmd @ ''\<newline>'')"

definition HostShell_write :: "runtime \<Rightarrow> bool \<Rightarrow> string \<Rightarrow> error + bytes" where
  "HostShell_write rt stdin_open cmd =
     (if stdin_open then Inr (sanitize_command rt cmd)
      else Inl (RuntimeError [Lit ''[Errno 32] Broken pipe'']))"

text \<open>The three markers, as the f-strings of \<^verbatim>\<open>exec\<close> build them.\<close>

definition cmd_end_prefix :: string where
  "cmd_end_prefix = ''__CMD_END''"

definition exit_prefix :: string where
  "exit_prefix = ''__EXIT''"

definition stderr_end_prefix :: string where
  "stderr_end_prefix = ''__STDERR_END''"

definition command_marker :: "runtime \<Rightarrow> string \<Rightarrow> string" where
  "command_marker rt cmd =
     cmd_end_prefix @ ''_'' @ session_id rt @ ''_'' @ str_of_int (hash rt cmd) @ ''__''"

definition exit_marker :: "runtime \<Rightarrow> string \<Rightarrow> string" where
  "exit_marker rt cmd = exit_prefix @ ''_'' @ str_of_int (hash rt cmd) @ ''__''"

definition stderr_marker :: "runtime \<Rightarrow> string \<Rightarrow> string" where
  "stderr_marker rt cmd =
     stderr_end_prefix @ ''_'' @ session_id rt @ ''_'' @ str_of_int (hash rt cmd) @ ''__''"

definition quote :: string where
  "quote = [CHR 0x27]"

definition safe_cmd :: "string \<Rightarrow> string" where
  "safe_cmd cmd = (if cmd \<noteq> [] then cmd else ''true'')"

definition marked_cmd :: "runtime \<Rightarrow> string \<Rightarrow> string" where
  "marked_cmd rt cmd =
     safe_cmd cmd @ ''; '' @
     ''echo '' @ quote @ exit_marker rt cmd @ '' '' @ quote @ ''$?; '' @
     ''echo '' @ quote @ command_marker rt cmd @ quote @ ''; '' @
     ''printf '' @ quote @ stderr_marker rt cmd @ quote @ '' > /dev/stderr''"

text \<open>
  The loop over the lines of the raw output. A line with the marker gives the exit code
  and keeps its part before the marker; a \<^verbatim>\<open>ValueError\<close> of \<^verbatim>\<open>int\<close> leaves the loop with
  exit code 1 and the lines collected so far.
\<close>

fun exit_code_loop ::
  "string \<Rightarrow> string list \<Rightarrow> string list \<Rightarrow> int \<Rightarrow> error + string list \<times> int" where
  "exit_code_loop marker [] new_stdout_lines exit_code = Inr (new_stdout_lines, exit_code)"
| "exit_code_loop marker (line # lines) new_stdout_lines exit_code =
     (if sublist marker line
      then (case str_split marker line of
              before # after # _ \<Rightarrow>
                (case py_int (strip after) of
                   None \<Rightarrow> Inr (new_stdout_lines, 1)
                 | Some n \<Rightarrow> exit_code_loop marker lines (new_stdout_lines @ [before]) n)
            | _ \<Rightarrow> Inl IndexError)
      else exit_code_loop marker lines (new_stdout_lines @ [line]) exit_code)"

definition extract_exit_code :: "string \<Rightarrow> string \<Rightarrow> error + string \<times> int" where
  "extract_exit_code marker raw_stdout =
     (if sublist marker raw_stdout
      then (case exit_code_loop marker (splitlines raw_stdout) [] 0 of
              Inl e \<Rightarrow> Inl e
            | Inr (new_stdout_lines, exit_code) \<Rightarrow> Inr (join ''\<newline>'' new_stdout_lines, exit_code))
      else Inr (raw_stdout, 0))"

definition cut_exit_prefix :: "string \<Rightarrow> string" where
  "cut_exit_prefix s =
     (if sublist exit_prefix s then slice_to s (str_find s exit_prefix) else s)"

text \<open>The dictionary returned by \<^verbatim>\<open>exec\<close>; the exit code is an \<^verbatim>\<open>int\<close> or a \<^verbatim>\<open>str\<close>.\<close>

datatype pyval = PyInt int | PyStr string

record command_result =
  stdout :: string
  stderr :: string
  exit_code :: pyval

record host_env =
  stdin_open :: bool
  reader :: read_env

text \<open>
  The end of \<^verbatim>\<open>exec\<close>, from the reader's result to the dictionary returned: the exit
  code is taken out, then the output is cut at a stray \<^verbatim>\<open>__EXIT\<close>.
\<close>

definition exec_result :: "string \<Rightarrow> string \<Rightarrow> string \<Rightarrow> error + command_result" where
  "exec_result marker raw_stdout raw_stderr =
     (case extract_exit_code marker raw_stdout of
        Inl e \<Rightarrow> Inl e
      | Inr (out, code) \<Rightarrow>
          Inr \<lparr>stdout = cut_exit_prefix out, stderr = raw_stderr, exit_code = PyInt code\<rparr>)"

definition interactive_message :: "string \<Rightarrow> string" where
  "interactive_message cmd =
     ''Interactive commands are not supported.'' @
     '' Command '' @ quote @ cmd @ quote @ '' appears to be interactive.''"

text \<open>
  \<^verbatim>\<open>HostShell.exec\<close>. The first component is what was written to the standard input
  of the shell; the second is the outcome, \<open>None\<close> when the ticks of the environment
  run out inside the reader. The timeout of the reader is its default, 120 seconds.
\<close>

definition HostShell_exec ::
  "runtime \<Rightarrow> string \<Rightarrow> bool \<Rightarrow> host_env \<Rightarrow> bytes list \<times> (error + command_result) option" where
  "HostShell_exec rt cmd wait env =
     (if is_interactive_command cmd
      then ([], Some (Inl (ValueError (interactive_message cmd))))
      else
        case HostShell_write rt (stdin_open env) (marked_cmd rt cmd) of
          Inl e \<Rightarrow> ([], Some (Inl e))
        | Inr written \<Rightarrow>
            ([written],
             case HostShell_read rt (Some (safe_cmd cmd)) (Some (command_marker rt cmd))
                    (Some (stderr_marker rt cmd)) wait 120000 (reader env) of
               None \<Rightarrow> None
             | Some (Inl e) \<Rightarrow> Some (Inl e)
             | Some (Inr (raw_stdout, raw_stderr)) \<Rightarrow>
                 Some (exec_result (exit_marker rt cmd) raw_stdout raw_stderr)))"

section \<open>The remote session\<close>

text \<open>
  The substitution of \<^verbatim>\<open>_ANSI_ESCAPE\<close> by nothing: ESC followed by one character of
  \<^verbatim>\<open>[@-Z\\-_]\<close>, or by \<^verbatim>\<open>[\<close>, parameter bytes \<^verbatim>\<open>[0-?]*\<close>, intermediate bytes
  \<^verbatim>\<open>[ -/]*\<close> and one final byte \<^verbatim>\<open>[@-~]\<close>. The three classes of the second form are
  disjoint, so the greedy match never backtracks.
\<close>

definition in_range :: "nat \<Rightarrow> nat \<Rightarrow> char \<Rightarrow> bool" where
  "in_range lo hi c = (lo \<le> (of_char c :: nat) \<and> (of_char c :: nat) \<le> hi)"

definition csi_length :: "bytes \<Rightarrow> nat option" where
  "csi_length s =
     (let params = takeWhile (in_range 0x30 0x3F) s;
          s1 = dropWhile (in_range 0x30 0x3F) s;
          inter = takeWhile (in_range 0x20 0x2F) s1
      in case dropWhile (in_range 0x20 0x2F) s1 of
           [] \<Rightarrow> None
         | c # _ \<Rightarrow>
             if in_range 0x40 0x7E c then Some (length params + length inter + 1) else None)"

function ansi_strip :: "bytes \<Rightarrow> bytes" where
  "ansi_strip [] = []"
| "ansi_strip [c] = [c]"
| "ansi_strip (c # d # cs) =
     (if c = CHR 0x1B \<and> (in_range 0x40 0x5A d \<or> in_range 0x5C 0x5F d) then ansi_strip cs
      else if c = CHR 0x1B \<and> d = CHR 0x5B \<and> csi_length cs \<noteq> None
      then ansi_strip (drop (case csi_length cs of Some n \<Rightarrow> n | None \<Rightarrow> 0) cs)
      else c # ansi_strip (d # cs))"
  by pat_completeness auto
termination
  by (relation "measure length") auto

text \<open>
  What the remote session observes: the successive outputs of the side-channel command
  \<^verbatim>\<open>ps -eo command\<close>, and for each call of \<^verbatim>\<open>_read\<close> the bytes ready on the channel
  and on its standard error.
\<close>

record ssh_env =
  ps_outputs :: "bytes list"
  received :: "(bytes \<times> bytes) list"

text \<open>\<^verbatim>\<open>SSHShell._send\<close>.\<close>

definition SSHShell_send :: "runtime \<Rightarrow> string \<Rightarrow> string option \<Rightarrow> effect list" where
  "SSHShell_send rt buffer stdin =
     (case stdin of
        None \<Rightarrow> [Send (encode rt (buffer @ ''\<newline>'')), Sleep 50]
      | Some i \<Rightarrow>
          [Send (encode rt (buffer @ ''\<newline>'')), Send (encode rt (i @ ''\<newline>'')), Sleep 50])"

text \<open>\<^verbatim>\<open>SSHShell._read\<close>: drains what is ready, output first, then standard error.\<close>

definition SSHShell_read ::
  "runtime \<Rightarrow> (bytes \<times> bytes) list \<Rightarrow> (error + string) \<times> (bytes \<times> bytes) list" where
  "SSHShell_read rt rcv =
     (let (output, rest) = (case rcv of [] \<Rightarrow> ([], []) | (out, err) # rest \<Rightarrow> (out @ err, rest))
      in (case decode rt (ansi_strip output) of
            None \<Rightarrow> Inl UnicodeDecodeError
          | Some text \<Rightarrow> Inr text, rest))"

text \<open>
  \<^verbatim>\<open>SSHShell._wait\<close>. The \<^verbatim>\<open>while True\<close> loop takes one listing per round and is
  \<open>None\<close> when the listings run out before a round finds no matching line.
\<close>

definition ps_command :: string where
  "ps_command = ''ps -eo command''"

fun wait_loop ::
  "runtime \<Rightarrow> string \<Rightarrow> bytes list \<Rightarrow> (effect list \<times> (error + bytes list)) option" where
  "wait_loop rt cmd [] = None"
| "wait_loop rt cmd (out # outs) =
     (case decode rt out of
        None \<Rightarrow> Some ([ExecCommand ps_command], Inl UnicodeDecodeError)
      | Some text \<Rightarrow>
          if list_all (\<lambda>line. \<not> suffix cmd (rstrip (lstrip line))) (str_split ''\<newline>'' text)
          then Some ([ExecCommand ps_command], Inr outs)
          else (case wait_loop rt cmd outs of
                  None \<Rightarrow> None
                | Some (effs, r) \<Rightarrow> Some ([ExecCommand ps_command, Sleep 300] @ effs, r)))"

definition SSHShell_wait ::
  "runtime \<Rightarrow> string \<Rightarrow> bytes list \<Rightarrow> (effect list \<times> (error + bytes list)) option" where
  "SSHShell_wait rt cmd outs =
     (case str_split '' '' cmd of
        [] \<Rightarrow> Some ([], Inl (ValueError ''not enough values to unpack''))
      | first # rest \<Rightarrow>
          if first \<in> set NOWAIT_CMDS \<or> length rest = 0 then Some ([Sleep 300], Inr outs)
          else wait_loop rt cmd outs)"

text \<open>
  \<^verbatim>\<open>SSHShell._exit_status\<close>. A \<^verbatim>\<open>UnicodeDecodeError\<close> of \<^verbatim>\<open>_read\<close> is a
  \<^verbatim>\<open>ValueError\<close> and is caught like a failed \<^verbatim>\<open>int\<close>.
\<close>

definition status_query :: string where
  "status_query = ''echo $?''"

definition parse_status :: "error + string \<Rightarrow> error + int" where
  "parse_status response =
     (case response of
        Inl e \<Rightarrow> Inr 1
      | Inr text \<Rightarrow>
          (case str_split ''\<newline>'' text of
             [] \<Rightarrow> Inl IndexError
           | [only] \<Rightarrow> Inr (case py_int (rstrip (lstrip only)) of None \<Rightarrow> 1 | Some n \<Rightarrow> n)
           | first # second # _ \<Rightarrow>
               Inr (case py_int (rstrip (lstrip second)) of None \<Rightarrow> 1 | Some n \<Rightarrow> n)))"

definition SSHShell_exit_status ::
  "runtime \<Rightarrow> (bytes \<times> bytes) list \<Rightarrow> effect list \<times> (error + int) \<times> (bytes \<times> bytes) list" where
  "SSHShell_exit_status rt rcv =
     (let (response, rest) = SSHShell_read rt rcv
      in (SSHShell_send rt status_query None, parse_status response, rest))"

text \<open>\<^verbatim>\<open>SSHShell._sanitize_output\<close>.\<close>

definition sanitize_output :: "string \<Rightarrow> string" where
  "sanitize_output output =
     (let lines = map rstrip (str_split [CHR 0x0D, CHR 0x0A] output);
          clean = join ''\<newline>'' (tl lines);
          clean = (if prefix [CHR 0x0D] clean then tl clean else clean)
      in str_replace ''(.dev)\<newline>'' [] clean)"

text \<open>\<^verbatim>\<open>SSHShell.exec\<close>: the loop over the clauses, then the status query.\<close>

fun ssh_exec_loop ::
  "runtime \<Rightarrow> bool \<Rightarrow> string list \<Rightarrow> string \<Rightarrow> ssh_env \<Rightarrow>
   (effect list \<times> (error + string \<times> ssh_env)) option" where
  "ssh_exec_loop rt wait [] output env = Some ([], Inr (output, env))"
| "ssh_exec_loop rt wait (c # cs) output env =
     (let sent = SSHShell_send rt c None
      in case (if wait then SSHShell_wait rt c (ps_outputs env)
               else Some ([], Inr (ps_outputs env))) of
           None \<Rightarrow> None
         | Some (waited, Inl e) \<Rightarrow> Some (sent @ waited, Inl e)
         | Some (waited, Inr outs) \<Rightarrow>
             (case SSHShell_read rt (received env) of
                (Inl e, rcv) \<Rightarrow> Some (sent @ waited, Inl e)
              | (Inr text, rcv) \<Rightarrow>
                  (case ssh_exec_loop rt wait cs (output @ sanitize_output text)
                          \<lparr>ps_outputs = outs, received = rcv\<rparr> of
                     None \<Rightarrow> None
                   | Some (effs, r) \<Rightarrow> Some (sent @ waited @ effs, r))))"

definition SSHShell_exec ::
  "runtime \<Rightarrow> string \<Rightarrow> bool \<Rightarrow> ssh_env \<Rightarrow> (effect list \<times> (error + command_result)) option" where
  "SSHShell_exec rt cmd wait env =
     (case ssh_exec_loop rt wait (str_split '' && '' cmd) [] env of
        None \<Rightarrow> None
      | Some (effs, Inl e) \<Rightarrow> Some (effs, Inl e)
      | Some (effs, Inr (output, env')) \<Rightarrow>
          (case SSHShell_exit_status rt (received env') of
             (asked, Inl e, rcv) \<Rightarrow> Some (effs @ asked, Inl e)
           | (asked, Inr status, rcv) \<Rightarrow>
               Some (effs @ asked,
                     Inr \<lparr>stdout = output, stderr = [], exit_code = PyStr (str_of_int status)\<rparr>)))"

section \<open>The guard and the completion policy, in the words of the specification\<close>

text \<open>
  The clauses of a command, split on \<^verbatim>\<open>&&\<close> and on \<^verbatim>\<open>;\<close> in one pass from left to
  right.
\<close>

fun clauses_aux :: "string \<Rightarrow> string \<Rightarrow> string list" where
  "clauses_aux acc [] = [acc]"
| "clauses_aux acc [c] = (if c = CHR '';'' then [acc, []] else [acc @ [c]])"
| "clauses_aux acc (c # d # cs) =
     (if c = CHR ''&'' \<and> d = CHR ''&'' then acc # clauses_aux [] cs
      else if c = CHR '';'' then acc # clauses_aux [] (d # cs)
      else clauses_aux (acc @ [c]) (d # cs))"

definition clauses :: "string \<Rightarrow> string list" where
  "clauses cmd = clauses_aux [] cmd"

definition first_token :: "string \<Rightarrow> string option" where
  "first_token s = (case split_ws s of [] \<Rightarrow> None | tok # _ \<Rightarrow> Some tok)"

text \<open>
  A clause matches a catalog entry when, trimmed and lowercased, its first token is the
  entry's first token and it starts with the whole entry.
\<close>

definition clause_matches :: "string \<Rightarrow> string \<Rightarrow> bool" where
  "clause_matches clause entry =
     (let c = lower (strip clause)
      in first_token c \<noteq> None \<and> first_token c = first_token entry \<and> prefix entry c)"

definition is_interactive_spec :: "string \<Rightarrow> bool" where
  "is_interactive_spec cmd =
     list_ex (\<lambda>clause. list_ex (clause_matches clause) INTERACTIVE_COMMANDS) (clauses cmd)"

text \<open>A runtime and environments to evaluate the definitions on.\<close>

definition sample_hash :: "string \<Rightarrow> int" where
  "sample_hash s = int (length s) - 9"

definition sample_runtime :: runtime where
  "sample_runtime = \<lparr>session_id = ''s1'', hash = sample_hash, decode = Some, encode = id\<rparr>"

definition sample_tick :: tick where
  "sample_tick =
     \<lparr>elapsed = 10, ps_output = [],
      rd_stderr = Some ''__STDERR_END_s1_-7__'',
      rd_stdout = Some ''__EXIT_-7__ 0\<newline>__CMD_END_s1_-7__\<newline>''\<rparr>"

definition sample_env :: host_env where
  "sample_env =
     \<lparr>stdin_open = True,
      reader = \<lparr>start_time = 0, ticks = [sample_tick], returncode = None, final_elapsed = 5\<rparr>\<rparr>"

text \<open>
  Two notions to state what the loop over the lines does: the exit code a line with
  the marker gives (the text between the first and the second occurrence of the marker,
  parsed), and the line cut at the first occurrence of the marker.
\<close>

definition marker_line_code :: "string \<Rightarrow> string \<Rightarrow> int option" where
  "marker_line_code marker line =
     (case str_split marker line of
        before # after # _ \<Rightarrow> py_int (strip after)
      | _ \<Rightarrow> None)"

definition cut_line :: "string \<Rightarrow> string \<Rightarrow> string" where
  "cut_line marker line =
     (if sublist marker line then slice_to line (str_find line marker) else line)"

text \<open>One round of output for \<^verbatim>\<open>printf foo\<close>, which ends without a newline.\<close>

definition printf_tick :: tick where
  "printf_tick =
     \<lparr>elapsed = 10, ps_output = [],
      rd_stderr = Some ''__STDERR_END_s1_1__'',
      rd_stdout = Some ''foo__EXIT_1__ 0\<newline>__CMD_END_s1_1__\<newline>''\<rparr>"

definition printf_env :: host_env where
  "printf_env =
     \<lparr>stdin_open = True,
      reader = \<lparr>start_time = 0, ticks = [printf_tick], returncode = None, final_elapsed = 5\<rparr>\<rparr>"

text \<open>
  One round of output for \<^verbatim>\<open>ls\<close> in a shell where \<^verbatim>\<open>set -x\<close> is on: the
  shell traces the marker commands on its standard error before it runs them.
\<close>

definition xtrace_tick :: tick where
  "xtrace_tick =
     \<lparr>elapsed = 10, ps_output = [],
      rd_stderr = Some ''+ echo __CMD_END_s1_-7__\<newline>+ printf __STDERR_END_s1_-7__'',
      rd_stdout = Some ''__EXIT_-7__ 0\<newline>__CMD_END_s1_-7__\<newline>''\<rparr>"

definition xtrace_env :: host_env where
  "xtrace_env =
     \<lparr>stdin_open = True,
      reader = \<lparr>start_time = 0, ticks = [xtrace_tick], returncode = None, final_elapsed = 5\<rparr>\<rparr>"

definition fast_clause :: "string \<Rightarrow> bool" where
  "fast_clause clause = (case first_token clause of None \<Rightarrow> False | Some tok \<Rightarrow> tok \<in> set NOWAIT_CMDS)"

text \<open>
  A reader's view of a process that has already exited, and of one that prints part of
  its output and then nothing until the deadline has passed.
\<close>

definition exited_env :: read_env where
  "exited_env = \<lparr>start_time = 0, ticks = [sample_tick], returncode = Some 0, final_elapsed = 5\<rparr>"

definition partial_tick :: tick where
  "partial_tick = \<lparr>elapsed = 10, ps_output = [], rd_stderr = None, rd_stdout = Some ''partial''\<rparr>"

definition late_tick :: tick where
  "late_tick = \<lparr>elapsed = 120000, ps_output = [], rd_stderr = None, rd_stdout = None\<rparr>"

definition timeout_env :: read_env where
  "timeout_env =
     \<lparr>start_time = 0, ticks = [partial_tick, late_tick], returncode = None, final_elapsed = 5\<rparr>"

text \<open>
  The remote session, in the words of the specification: a listing is busy when one of
  its lines, trimmed, ends with the clause; the status is read from the last line of the
  response that is not blank.
\<close>

definition busy_listing :: "runtime \<Rightarrow> string \<Rightarrow> bytes \<Rightarrow> bool" where
  "busy_listing rt clause listing =
     (case decode rt listing of
        None \<Rightarrow> False
      | Some text \<Rightarrow> list_ex (\<lambda>line. suffix clause (strip line)) (str_split ''\<newline>'' text))"

definition free_listing :: "runtime \<Rightarrow> string \<Rightarrow> bytes \<Rightarrow> bool" where
  "free_listing rt clause listing =
     (case decode rt listing of
        None \<Rightarrow> False
      | Some text \<Rightarrow> list_all (\<lambda>line. \<not> suffix clause (strip line)) (str_split ''\<newline>'' text))"

definition int_or_one :: "string \<Rightarrow> int" where
  "int_or_one s = (case py_int (strip s) of None \<Rightarrow> 1 | Some n \<Rightarrow> n)"

definition exit_status_spec :: "string \<Rightarrow> int" where
  "exit_status_spec response =
     (case filter (\<lambda>line. strip line \<noteq> []) (str_split ''\<newline>'' response) of
        [] \<Rightarrow> 1
      | l # ls \<Rightarrow> int_or_one (last (l # ls)))"

text \<open>What the code reads the status from: the only line, or else the second line.\<close>

definition status_of_response :: "error + string \<Rightarrow> int" where
  "status_of_response response =
     (case response of
        Inl e \<Rightarrow> 1
      | Inr text \<Rightarrow>
          (case str_split ''\<newline>'' text of
             [] \<Rightarrow> 1
           | [only] \<Rightarrow> int_or_one only
           | first # second # _ \<Rightarrow> int_or_one second))"

text \<open>
  A remote run of \<^verbatim>\<open>make all\<close>: one listing without the command, the echoed command
  with its output, and a response to the status query with a late line behind the
  status.
\<close>

definition crlf :: string where
  "crlf = [CHR 0x0D, CHR 0x0A]"

definition make_env :: ssh_env where
  "make_env =
     \<lparr>ps_outputs = [''bash\<newline>''],
      received = [(''make all'' @ crlf @ ''done'' @ crlf, []),
                  (''echo $?'' @ crlf @ ''0'' @ crlf @ ''late'' @ crlf, [])]\<rparr>"

section \<open>Facts about the string operations\<close>

lemma isspace_lower: "isspace (lower_char c) = isspace c"
  by (auto simp add: isspace_def lower_char_def Let_def)

lemma strip_lower: "strip (lower s) = lower (strip s)"
  by (simp add: strip_def lstrip_def rstrip_def lower_def dropWhile_map rev_map comp_def
      isspace_lower)

lemma str_replace_andand:
  "str_replace ''&&'' '';'' (c # d # cs) =
     (if c = CHR ''&'' \<and> d = CHR ''&'' then CHR '';'' # str_replace ''&&'' '';'' cs
      else c # str_replace ''&&'' '';'' (d # cs))"
  "str_replace ''&&'' '';'' [c] = [c]"
  by auto

lemma split_semi:
  "split_sep_aux '';'' acc (c # cs) =
     (if c = CHR '';'' then acc # split_sep_aux '';'' [] cs
      else split_sep_aux '';'' (acc @ [c]) cs)"
  by auto

section \<open>The guard refines its specification\<close>

lemma split_replace_clauses:
  "split_sep_aux '';'' acc (str_replace ''&&'' '';'' s) = clauses_aux acc s"
proof (induction acc s rule: clauses_aux.induct)
  case (1 acc)
  show ?case by simp
next
  case (2 acc c)
  show ?case by (simp add: str_replace_andand split_semi)
next
  case (3 acc c d cs)
  then show ?case
    by (simp only: str_replace_andand split_semi clauses_aux.simps split: if_splits) auto
qed

lemma catalog_tokens: "ic \<in> set INTERACTIVE_COMMANDS \<Longrightarrow> split_ws ic \<noteq> []"
  by (auto simp: INTERACTIVE_COMMANDS_def split_ws_def isspace_def)

lemma clause_matches_code:
  assumes "ic \<in> set INTERACTIVE_COMMANDS"
  shows "clause_matches clause ic =
     (split_ws (strip (lower clause)) \<noteq> [] \<and>
      hd (split_ws (strip (lower clause))) = hd (split_ws ic) \<and>
      prefix ic (strip (lower clause)))"
  using catalog_tokens [OF assms]
  by (auto simp: clause_matches_def first_token_def strip_lower Let_def split: list.splits)

lemma interactive_loop_spec:
  "interactive_loop cs =
     list_ex (\<lambda>clause. list_ex (clause_matches clause) INTERACTIVE_COMMANDS) cs"
proof (induction cs)
  case Nil
  show ?case by simp
next
  case (Cons c cs)
  have "list_ex (clause_matches c) INTERACTIVE_COMMANDS =
     (split_ws (strip (lower c)) \<noteq> [] \<and>
      list_ex (\<lambda>ic. hd (split_ws (strip (lower c))) = hd (split_ws ic) \<and>
                    prefix ic (strip (lower c))) INTERACTIVE_COMMANDS)"
    unfolding list_ex_iff using clause_matches_code [of _ c]
    by (auto simp: INTERACTIVE_COMMANDS_def)
  with Cons show ?case by (auto simp: Let_def)
qed

lemma guard_refines: "is_interactive_command cmd = is_interactive_spec cmd"
  by (simp add: is_interactive_command_def is_interactive_spec_def str_split_def clauses_def
      split_replace_clauses interactive_loop_spec)

section \<open>Which exceptions can leave the reader\<close>

lemma all_nowait_error: "all_nowait cs = Inl e \<Longrightarrow> e = IndexError"
  by (induction cs) (auto split: list.splits if_splits)

lemma has_command_exited_error:
  "snd (has_command_exited rt c p) = Inl e \<Longrightarrow> e = IndexError \<or> e = UnicodeDecodeError"
  by (auto simp: has_command_exited_def Let_def split: sum.splits bool.splits option.splits
      dest: all_nowait_error)

lemma poll_streams_error: "poll_streams rt cm sm s tk = Inl e \<Longrightarrow> e = UnicodeDecodeError"
  by (auto simp: poll_streams_def Let_def split: if_splits option.splits)

lemma read_loop_error:
  "read_loop rt cmd cm sm wait end_time now s tks = Some (Inl e) \<Longrightarrow>
   e = IndexError \<or> e = UnicodeDecodeError"
proof (induction tks arbitrary: now s)
  case Nil
  then show ?case by simp
next
  case (Cons tk tks)
  show ?case using Cons.prems Cons.IH
    by (auto simp add: Let_def split: if_splits sum.splits bool.splits prod.splits
        dest: has_command_exited_error poll_streams_error)
qed

lemma data_or_buffer_error: "data_or_buffer rt d b = Inl e \<Longrightarrow> e = UnicodeDecodeError"
  by (auto simp: data_or_buffer_def split: option.splits)

lemma HostShell_read_error:
  "HostShell_read rt (Some c) cm sm wait t env = Some (Inl e) \<Longrightarrow> e \<noteq> ValueError m"
  by (auto simp: HostShell_read_def Let_def split: option.splits sum.splits prod.splits if_splits
      dest: read_loop_error data_or_buffer_error)

lemma exit_code_loop_error: "exit_code_loop m ls acc c = Inl e \<Longrightarrow> e = IndexError"
  by (induction ls arbitrary: acc c) (auto split: if_splits list.splits option.splits)

lemma extract_exit_code_error: "extract_exit_code m raw = Inl e \<Longrightarrow> e = IndexError"
  by (auto simp: extract_exit_code_def split: if_splits sum.splits dest: exit_code_loop_error)

lemma exec_not_interactive:
  assumes "\<not> is_interactive_command cmd"
  shows "fst (HostShell_exec rt cmd wait env) =
           (if stdin_open env then [sanitize_command rt (marked_cmd rt cmd)] else [])"
    and "snd (HostShell_exec rt cmd wait env) \<noteq> Some (Inl (ValueError m))"
  using assms
  by (auto simp: HostShell_exec_def HostShell_write_def exec_result_def
      split: option.splits sum.splits prod.splits
      dest: HostShell_read_error extract_exit_code_error)

section \<open>The guard before the write, the markers and the written command\<close>

text \<open>
  C2. \<^verbatim>\<open>exec\<close> raises the rejection of interactive commands, with nothing written to
  the shell, exactly when some clause of the command (split on \<^verbatim>\<open>&&\<close> and \<^verbatim>\<open>;\<close>),
  trimmed and lowercased, has the first token of a catalog entry as its first token and
  starts with the whole entry. When no clause matches, no \<^verbatim>\<open>ValueError\<close> leaves
  \<^verbatim>\<open>exec\<close> and the marked command is handed to the shell's standard input (written
  when the pipe is open).
\<close>

theorem interactive_guard:
  "(HostShell_exec rt cmd wait env = ([], Some (Inl (ValueError (interactive_message cmd)))))
     = is_interactive_spec cmd
   \<and> (\<not> is_interactive_spec cmd \<longrightarrow>
        fst (HostShell_exec rt cmd wait env) =
          (if stdin_open env then [sanitize_command rt (marked_cmd rt cmd)] else [])
        \<and> (\<forall>m. snd (HostShell_exec rt cmd wait env) \<noteq> Some (Inl (ValueError m))))"
proof (cases "is_interactive_command cmd")
  case True
  then show ?thesis by (simp add: HostShell_exec_def guard_refines)
next
  case False
  from exec_not_interactive(2) [OF False, of rt wait env "interactive_message cmd"]
  have "HostShell_exec rt cmd wait env \<noteq>
          ([], Some (Inl (ValueError (interactive_message cmd))))"
    by auto
  with False exec_not_interactive [OF False] show ?thesis
    by (simp add: guard_refines)
qed

theorem interactive_guard_witness:
  "\<not> is_interactive_spec ''ls'' \<and>
   fst (HostShell_exec sample_runtime ''ls'' True sample_env) =
     [sanitize_command sample_runtime (marked_cmd sample_runtime ''ls'')] \<and>
   is_interactive_spec ''ls; Tail -f x'' \<and>
   HostShell_exec sample_runtime ''ls; Tail -f x'' True sample_env =
     ([], Some (Inl (ValueError (interactive_message ''ls; Tail -f x''))))"
proof -
  have a: "\<not> is_interactive_spec ''ls''" by code_simp
  have b: "is_interactive_spec ''ls; Tail -f x''" by code_simp
  have c: "stdin_open sample_env" by (simp add: sample_env_def)
  show ?thesis
    using a b c interactive_guard [of sample_runtime "''ls''" True sample_env]
      interactive_guard [of sample_runtime "''ls; Tail -f x''" True sample_env]
    by simp
qed

lemma rstrip_marked: "rstrip (marked_cmd rt cmd) = marked_cmd rt cmd"
  by (simp add: rstrip_def marked_cmd_def isspace_def)

text \<open>
  C5, as amended. The command-end marker and the stderr-end marker are a fixed prefix,
  the session id and the decimal hash of the command text, joined by underscores and
  closed by two underscores. The exit-code marker is its fixed prefix and the hash
  only: it is the same for every session id.
\<close>

theorem marker_construction:
  "command_marker rt cmd =
     ''__CMD_END_'' @ session_id rt @ ''_'' @ str_of_int (hash rt cmd) @ ''__'' \<and>
   stderr_marker rt cmd =
     ''__STDERR_END_'' @ session_id rt @ ''_'' @ str_of_int (hash rt cmd) @ ''__'' \<and>
   exit_marker rt cmd = ''__EXIT_'' @ str_of_int (hash rt cmd) @ ''__'' \<and>
   exit_marker (rt\<lparr>session_id := sid\<rparr>) cmd = exit_marker rt cmd"
  by (simp add: command_marker_def stderr_marker_def exit_marker_def cmd_end_prefix_def
      stderr_end_prefix_def exit_prefix_def)

text \<open>
  C5 as stated fails: for the session \<open>s1\<close> the exit-code marker of \<^verbatim>\<open>ls\<close> does not
  contain the session id, and another session id gives the same marker.
\<close>

theorem exit_marker_without_session_id:
  "exit_marker sample_runtime ''ls'' = ''__EXIT_-7__'' \<and>
   \<not> sublist (session_id sample_runtime) (exit_marker sample_runtime ''ls'') \<and>
   exit_marker (sample_runtime\<lparr>session_id := ''another''\<rparr>) ''ls'' =
     exit_marker sample_runtime ''ls''"
  by code_simp

text \<open>
  C7. What \<^verbatim>\<open>exec\<close> writes to the shell is one line: the command (\<^verbatim>\<open>true\<close> when it
  is empty), then the echo of the exit-code marker with \<^verbatim>\<open>$?\<close>, then the echo of the
  command-end marker, then the \<^verbatim>\<open>printf\<close> of the stderr-end marker to
  \<^verbatim>\<open>/dev/stderr\<close>, in this order. Nothing is written for a rejected command or on a
  closed pipe.
\<close>

theorem written_command:
  "fst (HostShell_exec rt cmd wait env) =
     (if is_interactive_command cmd then []
      else if stdin_open env
      then [encode rt
              ((if cmd = [] then ''true'' else cmd) @
               ''; echo '' @ quote @ exit_marker rt cmd @ '' '' @ quote @
               ''$?; echo '' @ quote @ command_marker rt cmd @ quote @
               ''; printf '' @ quote @ stderr_marker rt cmd @ quote @
               '' > /dev/stderr\<newline>'')]
      else [])"
proof (cases "is_interactive_command cmd")
  case True
  then show ?thesis by (simp add: HostShell_exec_def)
next
  case False
  have "sanitize_command rt (marked_cmd rt cmd) =
          encode rt
            ((if cmd = [] then ''true'' else cmd) @
             ''; echo '' @ quote @ exit_marker rt cmd @ '' '' @ quote @
             ''$?; echo '' @ quote @ command_marker rt cmd @ quote @
             ''; printf '' @ quote @ stderr_marker rt cmd @ quote @
             '' > /dev/stderr\<newline>'')"
    unfolding sanitize_command_def rstrip_marked by (simp add: marked_cmd_def safe_cmd_def)
  with False exec_not_interactive(1) [OF False, of rt wait env] show ?thesis by simp
qed

theorem written_command_witness:
  "fst (HostShell_exec sample_runtime ''ls'' True sample_env) =
     [''ls; echo '' @ quote @ ''__EXIT_-7__ '' @ quote @
      ''$?; echo '' @ quote @ ''__CMD_END_s1_-7__'' @ quote @
      ''; printf '' @ quote @ ''__STDERR_END_s1_-7__'' @ quote @ '' > /dev/stderr\<newline>'']"
proof -
  have a: "\<not> is_interactive_command ''ls''" by code_simp
  have b: "stdin_open sample_env" by (simp add: sample_env_def)
  have c: "exit_marker sample_runtime ''ls'' = ''__EXIT_-7__''" by code_simp
  have d: "command_marker sample_runtime ''ls'' = ''__CMD_END_s1_-7__''" by code_simp
  have e: "stderr_marker sample_runtime ''ls'' = ''__STDERR_END_s1_-7__''" by code_simp
  show ?thesis using written_command [of sample_runtime "''ls''" True sample_env] a b
    by (simp add: c d e) (simp add: sample_runtime_def)
qed

section \<open>Searching, cutting and splitting\<close>

lemma str_find_nonneg: "(0 \<le> str_find s m) = sublist m s"
  by (induction s) (auto simp: Let_def sublist_Cons_right)

lemma slice_to_Cons: "0 \<le> r \<Longrightarrow> slice_to (c # cs) (r + 1) = c # slice_to cs r"
  by (simp add: slice_to_def nat_add_distrib)

lemma slice_to_prefix: "0 \<le> i \<Longrightarrow> prefix (slice_to s i) s"
  by (simp add: slice_to_def take_is_prefix)

lemma slice_find_prefix: "sublist m s \<Longrightarrow> prefix (slice_to s (str_find s m)) s"
  by (simp add: slice_to_prefix str_find_nonneg)

lemma slice_find_no_marker:
  "m \<noteq> [] \<Longrightarrow> sublist m s \<Longrightarrow> \<not> sublist m (slice_to s (str_find s m))"
proof (induction s)
  case Nil
  then show ?case by simp
next
  case (Cons c cs)
  show ?case
  proof (cases "prefix m (c # cs)")
    case True
    with Cons.prems show ?thesis by (simp add: slice_to_def)
  next
    case False
    with Cons.prems have sub: "sublist m cs" by (simp add: sublist_Cons_right)
    then have r: "0 \<le> str_find cs m" by (simp add: str_find_nonneg)
    have eq: "slice_to (c # cs) (str_find (c # cs) m) = c # slice_to cs (str_find cs m)"
      using False r slice_to_Cons [OF r] by (simp add: Let_def)
    have "\<not> prefix m (c # slice_to cs (str_find cs m))"
    proof
      assume "prefix m (c # slice_to cs (str_find cs m))"
      moreover have "prefix (c # slice_to cs (str_find cs m)) (c # cs)"
        using slice_find_prefix [OF sub] by simp
      ultimately have "prefix m (c # cs)" by (rule prefix_order.trans)
      with False show False by simp
    qed
    with Cons.IH [OF Cons.prems(1) sub] eq show ?thesis
      by (simp add: sublist_Cons_right)
  qed
qed

lemma split_sep_aux_nonempty: "split_sep_aux sep acc s \<noteq> []"
  by (induction sep acc s rule: split_sep_aux.induct) auto

lemma split_sep_aux_head:
  "m \<noteq> [] \<Longrightarrow> sublist m s \<Longrightarrow>
   \<exists>after rest. split_sep_aux m acc s = (acc @ slice_to s (str_find s m)) # after # rest"
proof (induction s arbitrary: acc)
  case Nil
  then show ?case by simp
next
  case (Cons c cs)
  show ?case
  proof (cases "prefix m (c # cs)")
    case True
    obtain a r where "split_sep_aux m [] (drop (length m) (c # cs)) = a # r"
      using split_sep_aux_nonempty by (meson neq_Nil_conv)
    with True Cons.prems show ?thesis by (simp add: slice_to_def)
  next
    case False
    with Cons.prems have sub: "sublist m cs" by (simp add: sublist_Cons_right)
    then have r: "0 \<le> str_find cs m" by (simp add: str_find_nonneg)
    have eq: "slice_to (c # cs) (str_find (c # cs) m) = c # slice_to cs (str_find cs m)"
      using False r slice_to_Cons [OF r] by (simp add: Let_def)
    from Cons.IH [OF Cons.prems(1) sub, of "acc @ [c]"] False eq show ?thesis by simp
  qed
qed

lemma sublist_skip_char:
  assumes "sublist m (xs @ c # ys)" and "c \<notin> set m"
  shows "sublist m xs \<or> sublist m ys"
proof -
  from assms(1) consider "sublist m xs" | "sublist m (c # ys)"
    | m1 m2 where "m = m1 @ m2" "suffix m1 xs" "prefix m2 (c # ys)"
    by (auto simp: sublist_append)
  then show ?thesis
  proof cases
    case 1
    then show ?thesis by simp
  next
    case 2
    then have "prefix m (c # ys) \<or> sublist m ys" by (simp add: sublist_Cons_right)
    with assms(2) show ?thesis by (cases m) auto
  next
    case 3
    with assms(2) have "m2 = []" by (cases m2) auto
    with 3 show ?thesis by auto
  qed
qed

lemma join_sublist:
  "sublist m (join ''\<newline>'' ls) \<Longrightarrow> CHR ''\<newline>'' \<notin> set m \<Longrightarrow> m \<noteq> [] \<Longrightarrow>
   \<exists>l\<in>set ls. sublist m l"
proof (induction "''\<newline>''" ls rule: join.induct)
  case 1
  then show ?case by simp
next
  case (2 x)
  then show ?case by simp
next
  case (3 x y ys)
  from 3(2) have "sublist m (x @ CHR ''\<newline>'' # join ''\<newline>'' (y # ys))" by simp
  from sublist_skip_char [OF this 3(3)] 3 show ?case by auto
qed

lemma linebreak_CR: "is_linebreak (CHR 0x0D)" "is_linebreak (CHR 0x0A)"
  by (simp_all add: is_linebreak_def)

lemma splitlines_aux_sublist:
  "l \<in> set (splitlines_aux acc s) \<Longrightarrow> sublist l (acc @ s)"
proof (induction acc s rule: splitlines_aux.induct)
  case (1 acc)
  then show ?case by (auto split: if_splits)
next
  case (2 acc c)
  then show ?case by (auto split: if_splits)
next
  case (3 acc c d cs)
  consider (crlf) "c = CHR 0x0D \<and> d = CHR 0x0A"
    | (br) "\<not> (c = CHR 0x0D \<and> d = CHR 0x0A)" "is_linebreak c"
    | (ch) "\<not> (c = CHR 0x0D \<and> d = CHR 0x0A)" "\<not> is_linebreak c" by blast
  then show ?case
  proof cases
    case crlf
    with 3(4) have "l = acc \<or> l \<in> set (splitlines_aux [] cs)" by simp
    then show ?thesis
    proof
      assume "l = acc" then show ?thesis by simp
    next
      assume "l \<in> set (splitlines_aux [] cs)"
      with 3(1) crlf have "sublist l cs" by simp
      then show ?thesis by (simp add: sublist_append sublist_Cons_right)
    qed
  next
    case br
    with 3(4) have "l = acc \<or> l \<in> set (splitlines_aux [] (d # cs))" by simp
    then show ?thesis
    proof
      assume "l = acc" then show ?thesis by simp
    next
      assume "l \<in> set (splitlines_aux [] (d # cs))"
      with 3(2) br have "sublist l (d # cs)" by simp
      then show ?thesis by (simp add: sublist_append sublist_Cons_right)
    qed
  next
    case ch
    with 3(4) have "l \<in> set (splitlines_aux (acc @ [c]) (d # cs))" by simp
    with 3(3) ch show ?thesis by simp
  qed
qed

lemma splitlines_aux_marker:
  "sublist m (acc @ s) \<Longrightarrow> m \<noteq> [] \<Longrightarrow> \<forall>c\<in>set m. \<not> is_linebreak c \<Longrightarrow>
   \<exists>l\<in>set (splitlines_aux acc s). sublist m l"
proof (induction acc s rule: splitlines_aux.induct)
  case (1 acc)
  then show ?case by auto
next
  case (2 acc c)
  show ?case
  proof (cases "is_linebreak c")
    case True
    with 2(3) have "c \<notin> set m" by auto
    from sublist_skip_char [OF _ this, of acc "[]"] 2(1,2) True show ?thesis by auto
  next
    case False
    with 2 show ?thesis by simp
  qed
next
  case (3 acc c d cs)
  consider (crlf) "c = CHR 0x0D \<and> d = CHR 0x0A"
    | (br) "\<not> (c = CHR 0x0D \<and> d = CHR 0x0A)" "is_linebreak c"
    | (ch) "\<not> (c = CHR 0x0D \<and> d = CHR 0x0A)" "\<not> is_linebreak c" by blast
  then show ?case
  proof cases
    case crlf
    with 3(6) linebreak_CR have nc: "c \<notin> set m" and nd: "d \<notin> set m" by auto
    from 3(4) have "sublist m (acc @ c # (d # cs))" by simp
    from sublist_skip_char [OF this nc] have "sublist m acc \<or> sublist m ([] @ d # cs)" by simp
    with sublist_skip_char [OF _ nd, of "[]" cs] 3(5) have "sublist m acc \<or> sublist m cs"
      by auto
    with 3(1) [OF crlf] 3(5,6) crlf show ?thesis by auto
  next
    case br
    with 3(6) have nc: "c \<notin> set m" by auto
    from 3(4) have "sublist m (acc @ c # (d # cs))" by simp
    from sublist_skip_char [OF this nc] 3(2) [OF br(1) br(2)] 3(5,6) br show ?thesis by auto
  next
    case ch
    with 3(3) [OF ch] 3(4,5,6) show ?thesis by auto
  qed
qed

section \<open>The loop that takes out the exit code\<close>

lemma str_of_nat_chars:
  "c \<in> set (str_of_nat n) \<Longrightarrow> 48 \<le> (of_char c :: nat) \<and> (of_char c :: nat) \<le> 57"
proof (induction n rule: str_of_nat.induct)
  case (1 n)
  show ?case
  proof (cases "n < 10")
    case True
    with 1(2) show ?thesis by (simp add: str_of_nat.simps [of n])
  next
    case False
    have "n mod 10 < 10" by simp
    with 1 False show ?thesis
      by (auto simp: str_of_nat.simps [of n])
  qed
qed

lemma str_of_int_no_linebreak: "c \<in> set (str_of_int i) \<Longrightarrow> \<not> is_linebreak c"
  by (auto simp: str_of_int_def is_linebreak_def dest!: str_of_nat_chars split: if_splits)

lemma exit_marker_no_linebreak: "c \<in> set (exit_marker rt cmd) \<Longrightarrow> \<not> is_linebreak c"
  by (auto simp: exit_marker_def exit_prefix_def is_linebreak_def dest: str_of_int_no_linebreak)

lemma exit_marker_nonempty: "exit_marker rt cmd \<noteq> []"
  by (simp add: exit_marker_def exit_prefix_def)

lemma exit_code_loop_step:
  assumes "m \<noteq> []" "sublist m line"
  shows "exit_code_loop m (line # lines) acc c =
     (case marker_line_code m line of
        None \<Rightarrow> Inr (acc, 1)
      | Some n \<Rightarrow> exit_code_loop m lines (acc @ [cut_line m line]) n)"
proof -
  from split_sep_aux_head [OF assms, of "[]"] obtain after rest where
    "str_split m line = slice_to line (str_find line m) # after # rest"
    by (auto simp: str_split_def)
  with assms show ?thesis
    by (simp add: marker_line_code_def cut_line_def split: option.splits)
qed

lemma exit_code_loop_skip:
  "\<not> sublist m line \<Longrightarrow>
   exit_code_loop m (line # lines) acc c = exit_code_loop m lines (acc @ [cut_line m line]) c"
  by (simp add: cut_line_def)

lemma exit_code_loop_plain:
  "\<forall>x\<in>set ls. \<not> sublist m x \<Longrightarrow> exit_code_loop m ls acc c = Inr (acc @ ls, c)"
  by (induction ls arbitrary: acc) auto

lemma exit_code_loop_pre:
  assumes "m \<noteq> []" and "\<forall>x\<in>set pre. sublist m x \<longrightarrow> marker_line_code m x \<noteq> None"
  shows "\<exists>c'. exit_code_loop m (pre @ ls) acc c =
               exit_code_loop m ls (acc @ map (cut_line m) pre) c'"
  using assms(2)
proof (induction pre arbitrary: acc c)
  case Nil
  then show ?case by auto
next
  case (Cons x pre)
  show ?case
  proof (cases "sublist m x")
    case True
    with Cons.prems obtain n where n: "marker_line_code m x = Some n" by auto
    from Cons.IH [of "acc @ [cut_line m x]" n] Cons.prems
    show ?thesis using exit_code_loop_step [OF assms(1) True, of "pre @ ls" acc c] n by simp
  next
    case False
    from Cons.IH [of "acc @ [cut_line m x]" c] Cons.prems
    show ?thesis using exit_code_loop_skip [OF False, of "pre @ ls" acc c] by simp
  qed
qed

lemma exit_code_loop_shape:
  assumes "m \<noteq> []" and "\<forall>x\<in>set pre. sublist m x \<longrightarrow> marker_line_code m x \<noteq> None"
    and "sublist m l"
  shows "exit_code_loop m (pre @ l # post) acc c =
     (case marker_line_code m l of
        None \<Rightarrow> Inr (acc @ map (cut_line m) pre, 1)
      | Some n \<Rightarrow> exit_code_loop m post (acc @ map (cut_line m) pre @ [cut_line m l]) n)"
proof -
  from exit_code_loop_pre [OF assms(1,2), of "l # post" acc c] obtain c' where
    a: "exit_code_loop m (pre @ l # post) acc c =
          exit_code_loop m (l # post) (acc @ map (cut_line m) pre) c'"
    by blast
  have b: "exit_code_loop m (l # post) (acc @ map (cut_line m) pre) c' =
     (case marker_line_code m l of
        None \<Rightarrow> Inr (acc @ map (cut_line m) pre, 1)
      | Some n \<Rightarrow> exit_code_loop m post ((acc @ map (cut_line m) pre) @ [cut_line m l]) n)"
    by (rule exit_code_loop_step [OF assms(1,3)])
  show ?thesis unfolding a b by (simp split: option.splits)
qed

section \<open>One round of the reader, evaluated\<close>

lemma exec_read:
  assumes "\<not> is_interactive_command cmd" and "stdin_open env"
  shows "snd (HostShell_exec rt cmd wait env) =
     (case HostShell_read rt (Some (safe_cmd cmd)) (Some (command_marker rt cmd))
             (Some (stderr_marker rt cmd)) wait 120000 (reader env) of
        None \<Rightarrow> None
      | Some (Inl e) \<Rightarrow> Some (Inl e)
      | Some (Inr (raw_stdout, raw_stderr)) \<Rightarrow>
          Some (exec_result (exit_marker rt cmd) raw_stdout raw_stderr))"
  using assms by (simp add: HostShell_exec_def HostShell_write_def)

lemma read_one_round:
  assumes "ticks env = tk # tks" and "elapsed tk < timeout" and "c \<noteq> []"
    and "wait \<longrightarrow> snd (has_command_exited rt c (ps_output tk)) = Inr True"
    and "poll_streams rt cm sm init_rstate tk = Inr (s, True)"
    and "returncode env = None" and "elapsed tk + final_elapsed env < timeout"
    and "stdout_data s = Some out" and "stderr_data s = Some err"
  shows "HostShell_read rt (Some c) cm sm wait timeout env = Some (Inr (out, err))"
  using assms by (simp add: HostShell_read_def Let_def data_or_buffer_def)

lemma printf_not_interactive: "\<not> is_interactive_command ''printf foo''"
  by code_simp

lemma printf_command_marker:
  "command_marker sample_runtime ''printf foo'' = ''__CMD_END_s1_1__''"
  by code_simp

lemma printf_stderr_marker:
  "stderr_marker sample_runtime ''printf foo'' = ''__STDERR_END_s1_1__''"
  by code_simp

lemma printf_exit_marker: "exit_marker sample_runtime ''printf foo'' = ''__EXIT_1__''"
  by code_simp

lemma printf_exited:
  "snd (has_command_exited sample_runtime ''printf foo'' []) = Inr True"
  by code_simp

lemma printf_poll: "poll_streams sample_runtime (Some ''__CMD_END_s1_1__'') (Some ''__STDERR_END_s1_1__'') init_rstate printf_tick
  = Inr (\<lparr>buf_stderr = ''__STDERR_END_s1_1__'',
         buf_stdout = ''foo__EXIT_1__ 0\<newline>__CMD_END_s1_1__\<newline>'',
         stdout_data = Some ''foo__EXIT_1__ 0\<newline>'', stderr_data = Some [],
         status_stdout = True, status_stderr = True\<rparr>, True)" by code_simp


lemma printf_read: "HostShell_read sample_runtime (Some ''printf foo'') (Some ''__CMD_END_s1_1__'') (Some ''__STDERR_END_s1_1__'') True 120000 (reader printf_env)
   = Some (Inr (''foo__EXIT_1__ 0\<newline>'', []))"
  by (rule read_one_round [where tk = printf_tick and tks = "[]", OF _ _ _ _ printf_poll])
     (simp_all add: printf_env_def printf_tick_def printf_exited)

lemma printf_result: "exec_result ''__EXIT_1__'' ''foo__EXIT_1__ 0\<newline>'' [] = Inr \<lparr>stdout = ''foo'', stderr = [], exit_code = PyInt 0\<rparr>"
  by code_simp

lemma printf_exec:
  "snd (HostShell_exec sample_runtime ''printf foo'' True printf_env) =
     Some (Inr \<lparr>stdout = ''foo'', stderr = [], exit_code = PyInt 0\<rparr>)"
proof -
  have "stdin_open printf_env" by (simp add: printf_env_def)
  from exec_read [OF printf_not_interactive this, of sample_runtime True]
  show ?thesis
    by (simp add: printf_command_marker printf_stderr_marker printf_exit_marker safe_cmd_def
        printf_read printf_result)
qed

text \<open>
  C3, as amended. The raw output contains the exit-code marker exactly when one of its
  lines does. Every line with the marker is cut at the first occurrence of the marker:
  the text before it stays in the output, the marker and the rest of the line go. When
  every line with the marker parses, the exit code is the integer after the marker on
  the last such line; when a line with the marker does not parse, the exit code is 1 and
  that line and all later lines are dropped. The lines are joined again and the result
  is cut at a stray \<^verbatim>\<open>__EXIT\<close>.
\<close>

theorem exit_code_extraction:
  "(sublist (exit_marker rt cmd) raw = (\<exists>l\<in>set (splitlines raw). sublist (exit_marker rt cmd) l))
   \<and> (splitlines raw = pre @ l # post \<and> sublist (exit_marker rt cmd) l \<and>
      (\<forall>x\<in>set pre. sublist (exit_marker rt cmd) x \<longrightarrow>
                    marker_line_code (exit_marker rt cmd) x \<noteq> None) \<longrightarrow>
      (marker_line_code (exit_marker rt cmd) l = None \<longrightarrow>
         exec_result (exit_marker rt cmd) raw err =
           Inr \<lparr>stdout = cut_exit_prefix (join ''\<newline>'' (map (cut_line (exit_marker rt cmd)) pre)),
                stderr = err, exit_code = PyInt 1\<rparr>) \<and>
      (\<forall>n. marker_line_code (exit_marker rt cmd) l = Some n \<and>
            (\<forall>x\<in>set post. \<not> sublist (exit_marker rt cmd) x) \<longrightarrow>
         exec_result (exit_marker rt cmd) raw err =
           Inr \<lparr>stdout = cut_exit_prefix (join ''\<newline>''
                            (map (cut_line (exit_marker rt cmd)) pre @
                             cut_line (exit_marker rt cmd) l # post)),
                stderr = err, exit_code = PyInt n\<rparr>))"
proof -
  let ?m = "exit_marker rt cmd"
  have ne: "?m \<noteq> []" by (rule exit_marker_nonempty)
  have lines: "sublist ?m raw = (\<exists>l\<in>set (splitlines raw). sublist ?m l)"
  proof
    assume "sublist ?m raw"
    then have "sublist ?m ([] @ raw)" by simp
    from splitlines_aux_marker [OF this ne] exit_marker_no_linebreak [of _ rt cmd]
    show "\<exists>l\<in>set (splitlines raw). sublist ?m l" by (auto simp: splitlines_def)
  next
    assume "\<exists>l\<in>set (splitlines raw). sublist ?m l"
    then obtain l where "l \<in> set (splitlines_aux [] raw)" "sublist ?m l"
      by (auto simp: splitlines_def)
    with splitlines_aux_sublist [of l "[]" raw] show "sublist ?m raw"
      by (auto intro: sublist_order.order.trans)
  qed
  have main: "(marker_line_code ?m l = None \<longrightarrow>
         exec_result ?m raw err =
           Inr \<lparr>stdout = cut_exit_prefix (join ''\<newline>'' (map (cut_line ?m) pre)),
                stderr = err, exit_code = PyInt 1\<rparr>) \<and>
      (\<forall>n. marker_line_code ?m l = Some n \<and> (\<forall>x\<in>set post. \<not> sublist ?m x) \<longrightarrow>
         exec_result ?m raw err =
           Inr \<lparr>stdout = cut_exit_prefix (join ''\<newline>'' (map (cut_line ?m) pre @ cut_line ?m l # post)),
                stderr = err, exit_code = PyInt n\<rparr>)"
    if dec: "splitlines raw = pre @ l # post" and l: "sublist ?m l"
      and pre: "\<forall>x\<in>set pre. sublist ?m x \<longrightarrow> marker_line_code ?m x \<noteq> None"
  proof -
    from dec l have "\<exists>l\<in>set (splitlines raw). sublist ?m l" by auto
    with lines have raw: "sublist ?m raw" by simp
    note shape = exit_code_loop_shape [OF ne pre l, of post "[]" 0]
    show ?thesis
    proof (intro conjI impI allI)
      assume "marker_line_code ?m l = None"
      with shape raw dec show "exec_result ?m raw err =
           Inr \<lparr>stdout = cut_exit_prefix (join ''\<newline>'' (map (cut_line ?m) pre)),
                stderr = err, exit_code = PyInt 1\<rparr>"
        by (simp add: exec_result_def extract_exit_code_def)
    next
      fix n
      assume a: "marker_line_code ?m l = Some n \<and> (\<forall>x\<in>set post. \<not> sublist ?m x)"
      then have "exit_code_loop ?m post (map (cut_line ?m) pre @ [cut_line ?m l]) n =
          Inr ((map (cut_line ?m) pre @ [cut_line ?m l]) @ post, n)"
        by (intro exit_code_loop_plain) simp
      with a shape raw dec show "exec_result ?m raw err =
           Inr \<lparr>stdout = cut_exit_prefix (join ''\<newline>'' (map (cut_line ?m) pre @ cut_line ?m l # post)),
                stderr = err, exit_code = PyInt n\<rparr>"
        by (simp add: exec_result_def extract_exit_code_def)
    qed
  qed
  from lines main show ?thesis by blast
qed

theorem exit_code_extraction_witness:
  "splitlines ''a\<newline>foo__EXIT_-7__ 0\<newline>b'' = [''a''] @ ''foo__EXIT_-7__ 0'' # [''b''] \<and>
   sublist (exit_marker sample_runtime ''ls'') ''foo__EXIT_-7__ 0'' \<and>
   marker_line_code (exit_marker sample_runtime ''ls'') ''foo__EXIT_-7__ 0'' = Some 0 \<and>
   exec_result (exit_marker sample_runtime ''ls'') ''a\<newline>foo__EXIT_-7__ 0\<newline>b'' [] =
     Inr \<lparr>stdout = ''a\<newline>foo\<newline>b'', stderr = [], exit_code = PyInt 0\<rparr>"
proof -
  have a: "splitlines ''a\<newline>foo__EXIT_-7__ 0\<newline>b'' = [''a''] @ ''foo__EXIT_-7__ 0'' # [''b'']"
    by code_simp
  have b: "sublist (exit_marker sample_runtime ''ls'') ''foo__EXIT_-7__ 0''" by code_simp
  have c: "\<forall>x\<in>set [''a'']. sublist (exit_marker sample_runtime ''ls'') x \<longrightarrow>
             marker_line_code (exit_marker sample_runtime ''ls'') x \<noteq> None" by code_simp
  have d: "marker_line_code (exit_marker sample_runtime ''ls'') ''foo__EXIT_-7__ 0'' = Some 0"
    by code_simp
  have e: "\<forall>x\<in>set [''b'']. \<not> sublist (exit_marker sample_runtime ''ls'') x" by code_simp
  have f: "cut_exit_prefix (join ''\<newline>'' (map (cut_line (exit_marker sample_runtime ''ls'')) [''a''] @
             cut_line (exit_marker sample_runtime ''ls'') ''foo__EXIT_-7__ 0'' # [''b''])) = ''a\<newline>foo\<newline>b''"
    by code_simp
  from exit_code_extraction [of sample_runtime "''ls''" "''a\<newline>foo__EXIT_-7__ 0\<newline>b''"
      "[''a'']" "''foo__EXIT_-7__ 0''" "[''b'']" "[]"] a b c d e
  have "exec_result (exit_marker sample_runtime ''ls'') ''a\<newline>foo__EXIT_-7__ 0\<newline>b'' [] =
     Inr \<lparr>stdout = cut_exit_prefix (join ''\<newline>'' (map (cut_line (exit_marker sample_runtime ''ls'')) [''a''] @
             cut_line (exit_marker sample_runtime ''ls'') ''foo__EXIT_-7__ 0'' # [''b''])), stderr = [], exit_code = PyInt 0\<rparr>"
    by blast
  with a b d f show ?thesis by simp
qed

text \<open>
  C3 as stated fails: the output line of \<^verbatim>\<open>printf foo\<close> carries the marker, and its
  text \<^verbatim>\<open>foo\<close> is still returned; and of two lines with the marker the last one
  gives the exit code, not the first.
\<close>

theorem marker_line_not_removed:
  "snd (HostShell_exec sample_runtime ''printf foo'' True printf_env) =
     Some (Inr \<lparr>stdout = ''foo'', stderr = [], exit_code = PyInt 0\<rparr>) \<and>
   exec_result ''__EXIT_1__'' ''__EXIT_1__ 3\<newline>__EXIT_1__ 0\<newline>'' [] =
     Inr \<lparr>stdout = ''\<newline>'', stderr = [], exit_code = PyInt 0\<rparr>"
proof -
  have "exec_result ''__EXIT_1__'' ''__EXIT_1__ 3\<newline>__EXIT_1__ 0\<newline>'' [] =
     Inr \<lparr>stdout = ''\<newline>'', stderr = [], exit_code = PyInt 0\<rparr>"
    by code_simp
  with printf_exec show ?thesis by simp
qed

section \<open>What a successful read returns\<close>

lemma poll_streams_found:
  assumes "poll_streams rt (Some cm) (Some sm) s tk = Inr (s', True)"
  shows "\<exists>out err. decode rt (buf_stdout s') = Some out \<and> decode rt (buf_stderr s') = Some err \<and>
           sublist cm out \<and> sublist sm err \<and>
           stdout_data s' = Some (truncate_at (Some cm) out) \<and>
           stderr_data s' = Some (truncate_at (Some sm) err)"
  using assms
  by (auto simp: poll_streams_def Let_def split: if_splits option.splits)

lemma read_loop_success:
  assumes "read_loop rt (Some c) (Some cm) (Some sm) wait end_time now0 s0 tks = Some (Inr (s, now))"
    and "c \<noteq> []"
  shows "end_time \<le> now \<or>
     (\<exists>out err. decode rt (buf_stdout s) = Some out \<and> decode rt (buf_stderr s) = Some err \<and>
           sublist cm out \<and> sublist sm err \<and>
           stdout_data s = Some (truncate_at (Some cm) out) \<and>
           stderr_data s = Some (truncate_at (Some sm) err))"
  using assms(1)
proof (induction tks arbitrary: now0 s0)
  case Nil
  then show ?case by simp
next
  case (Cons tk tks)
  show ?case
  proof (cases "now0 + elapsed tk < end_time")
    case False
    with Cons.prems show ?thesis by (simp add: Let_def)
  next
    case True
    note lt = True
    show ?thesis
    proof (cases "if wait then snd (has_command_exited rt c (ps_output tk)) else Inr True")
      case (Inl e)
      with lt Cons.prems assms(2) show ?thesis by (simp add: Let_def split: if_splits)
    next
      case (Inr b)
      show ?thesis
      proof (cases b)
        case False
        with Inr lt Cons.prems assms(2)
        have "read_loop rt (Some c) (Some cm) (Some sm) wait end_time (now0 + elapsed tk) s0 tks = Some (Inr (s, now))"
          by (simp add: Let_def split: if_splits)
        then show ?thesis by (rule Cons.IH)
      next
        case True
        show ?thesis
        proof (cases "poll_streams rt (Some cm) (Some sm) s0 tk")
          case (Inl e)
          with True Inr lt Cons.prems assms(2) show ?thesis by (simp add: Let_def split: if_splits)
        next
          case ps: (Inr r)
          obtain s' found where r: "r = (s', found)" by (cases r)
          show ?thesis
          proof (cases found)
            case True
            with ps r \<open>b\<close> Inr lt Cons.prems assms(2) have "s = s'"
              by (simp add: Let_def split: if_splits)
            with poll_streams_found [of rt cm sm s0 tk s'] ps r True show ?thesis by simp
          next
            case False
            with ps r \<open>b\<close> Inr lt Cons.prems assms(2)
            have "read_loop rt (Some c) (Some cm) (Some sm) wait end_time (now0 + elapsed tk) s' tks = Some (Inr (s, now))"
              by (simp add: Let_def split: if_splits)
            then show ?thesis by (rule Cons.IH)
          qed
        qed
      qed
    qed
  qed
qed

lemma HostShell_read_success:
  assumes "HostShell_read rt (Some c) (Some cm) (Some sm) wait timeout env = Some (Inr (raw_out, raw_err))"
    and "c \<noteq> []" and "cm \<noteq> []" and "sm \<noteq> []"
  shows "\<exists>out err. sublist cm out \<and> sublist sm err \<and>
           raw_out = slice_to out (str_find out cm) \<and> raw_err = slice_to err (str_find err sm)"
proof -
  from assms(1) obtain s now where
    loop: "read_loop rt (Some c) (Some cm) (Some sm) wait (start_time env + timeout) (start_time env) init_rstate (ticks env) = Some (Inr (s, now))"
    and live: "returncode env = None" and time: "now + final_elapsed env < start_time env + timeout"
    and out: "data_or_buffer rt (stdout_data s) (buf_stdout s) = Inr raw_out"
    and err: "data_or_buffer rt (stderr_data s) (buf_stderr s) = Inr raw_err"
    by (auto simp: HostShell_read_def Let_def split: option.splits sum.splits if_splits)
  from read_loop_success [OF loop assms(2)] time obtain out' err' where
    "sublist cm out'" "sublist sm err'"
    "stdout_data s = Some (truncate_at (Some cm) out')"
    "stderr_data s = Some (truncate_at (Some sm) err')"
    by auto
  with out err assms(3,4) show ?thesis
    by (auto simp: data_or_buffer_def truncate_at_def)
qed

lemma cut_line_sublist: "sublist (cut_line m l) l"
  by (auto simp: cut_line_def dest: slice_find_prefix)

lemma exit_code_loop_lines:
  assumes "m \<noteq> []"
  shows "exit_code_loop m ls acc c = Inr (out, code) \<Longrightarrow>
     \<forall>l'\<in>set out. l' \<in> set acc \<or> (\<exists>l\<in>set ls. sublist l' l)"
proof (induction ls arbitrary: acc c)
  case Nil
  then show ?case by auto
next
  case (Cons x ls)
  show ?case
  proof (cases "sublist m x")
    case True
    show ?thesis
    proof (cases "marker_line_code m x")
      case None
      with Cons.prems exit_code_loop_step [OF assms True, of ls acc c] show ?thesis by auto
    next
      case (Some n)
      with Cons.prems exit_code_loop_step [OF assms True, of ls acc c]
      have "exit_code_loop m ls (acc @ [cut_line m x]) n = Inr (out, code)" by simp
      from Cons.IH [OF this] cut_line_sublist [of m x] show ?thesis by auto
    qed
  next
    case False
    with Cons.prems have "exit_code_loop m ls (acc @ [x]) c = Inr (out, code)" by simp
    from Cons.IH [OF this] show ?thesis by auto
  qed
qed

lemma extract_keeps_out:
  assumes "extract_exit_code m raw = Inr (out, code)" and "m \<noteq> []"
    and "\<not> sublist cm raw" and "CHR ''\<newline>'' \<notin> set cm" and "cm \<noteq> []"
  shows "\<not> sublist cm out"
proof (cases "sublist m raw")
  case False
  with assms show ?thesis by (simp add: extract_exit_code_def)
next
  case True
  with assms(1) obtain ls where loop: "exit_code_loop m (splitlines raw) [] 0 = Inr (ls, code)"
    and out: "out = join ''\<newline>'' ls"
    by (auto simp: extract_exit_code_def split: sum.splits)
  show ?thesis
  proof
    assume "sublist cm out"
    with out join_sublist [OF _ assms(4,5)] obtain l' where l': "l' \<in> set ls" "sublist cm l'" by blast
    from exit_code_loop_lines [OF assms(2) loop] l' obtain l where
      "l \<in> set (splitlines_aux [] raw)" "sublist l' l" by (auto simp: splitlines_def)
    with splitlines_aux_sublist [of l "[]" raw] l'(2) have "sublist cm raw"
      by (auto intro: sublist_order.order.trans)
    with assms(3) show False by simp
  qed
qed

lemma cut_exit_prefix_sublist: "sublist (cut_exit_prefix s) s"
  by (auto simp: cut_exit_prefix_def dest: slice_find_prefix)

lemma cut_exit_prefix_clean: "\<not> sublist exit_prefix (cut_exit_prefix s)"
  using slice_find_no_marker [of exit_prefix s]
  by (auto simp: cut_exit_prefix_def) (simp add: exit_prefix_def)

lemma exit_prefix_in_marker: "sublist exit_prefix (exit_marker rt cmd)"
  by (simp add: exit_marker_def)

lemma command_marker_no_newline:
  "CHR ''\<newline>'' \<notin> set (session_id rt) \<Longrightarrow> CHR ''\<newline>'' \<notin> set (command_marker rt cmd)"
  using str_of_int_no_linebreak [of "CHR ''\<newline>''" "hash rt cmd"]
  by (auto simp: command_marker_def cmd_end_prefix_def is_linebreak_def)

lemma marker_nonempty: "command_marker rt cmd \<noteq> []" "stderr_marker rt cmd \<noteq> []" "safe_cmd cmd \<noteq> []"
  by (simp_all add: command_marker_def stderr_marker_def cmd_end_prefix_def stderr_end_prefix_def safe_cmd_def)

lemma ls_not_interactive: "\<not> is_interactive_command ''ls''"
  by code_simp

lemma ls_command_marker: "command_marker sample_runtime ''ls'' = ''__CMD_END_s1_-7__''"
  by code_simp

lemma ls_stderr_marker: "stderr_marker sample_runtime ''ls'' = ''__STDERR_END_s1_-7__''"
  by code_simp

lemma ls_exit_marker: "exit_marker sample_runtime ''ls'' = ''__EXIT_-7__''"
  by code_simp

lemma ls_exited: "snd (has_command_exited sample_runtime ''ls'' []) = Inr True"
  by code_simp

lemma xtrace_poll:
  "poll_streams sample_runtime (Some ''__CMD_END_s1_-7__'') (Some ''__STDERR_END_s1_-7__'')
     init_rstate xtrace_tick =
   Inr (\<lparr>buf_stderr = ''+ echo __CMD_END_s1_-7__\<newline>+ printf __STDERR_END_s1_-7__'',
         buf_stdout = ''__EXIT_-7__ 0\<newline>__CMD_END_s1_-7__\<newline>'',
         stdout_data = Some ''__EXIT_-7__ 0\<newline>'',
         stderr_data = Some ''+ echo __CMD_END_s1_-7__\<newline>+ printf '',
         status_stdout = True, status_stderr = True\<rparr>, True)"
  by code_simp

lemma xtrace_read:
  "HostShell_read sample_runtime (Some ''ls'') (Some ''__CMD_END_s1_-7__'')
     (Some ''__STDERR_END_s1_-7__'') True 120000 (reader xtrace_env) =
   Some (Inr (''__EXIT_-7__ 0\<newline>'', ''+ echo __CMD_END_s1_-7__\<newline>+ printf ''))"
  by (rule read_one_round [where tk = xtrace_tick and tks = "[]", OF _ _ _ _ xtrace_poll])
     (simp_all add: xtrace_env_def xtrace_tick_def ls_exited)

lemma xtrace_result:
  "exec_result ''__EXIT_-7__'' ''__EXIT_-7__ 0\<newline>'' ''+ echo __CMD_END_s1_-7__\<newline>+ printf '' =
   Inr \<lparr>stdout = [], stderr = ''+ echo __CMD_END_s1_-7__\<newline>+ printf '', exit_code = PyInt 0\<rparr>"
  by code_simp

text \<open>
  C1, as amended. When a local \<^verbatim>\<open>exec\<close> returns a result (for a session id without a
  newline), the returned output contains neither the command-end marker nor the
  exit-code marker, nor any \<^verbatim>\<open>__EXIT\<close> at all, and the returned error text does not
  contain the stderr-end marker: the decoded error buffer is cut at the first stderr-end
  marker, and the decoded output buffer is cut at the first command-end marker before the
  exit code is taken out of it. Each stream is cleaned of its own markers only.
\<close>

theorem markers_stripped:
  assumes "snd (HostShell_exec rt cmd wait env) = Some (Inr res)"
    and "CHR ''\<newline>'' \<notin> set (session_id rt)"
  shows "\<not> sublist (command_marker rt cmd) (stdout res) \<and>
         \<not> sublist (exit_marker rt cmd) (stdout res) \<and>
         \<not> sublist exit_prefix (stdout res) \<and>
         \<not> sublist (stderr_marker rt cmd) (stderr res) \<and>
         (\<exists>out err. sublist (command_marker rt cmd) out \<and> sublist (stderr_marker rt cmd) err \<and>
            stderr res = slice_to err (str_find err (stderr_marker rt cmd)) \<and>
            exec_result (exit_marker rt cmd)
              (slice_to out (str_find out (command_marker rt cmd))) (stderr res) = Inr res)"
proof -
  let ?cm = "command_marker rt cmd" and ?sm = "stderr_marker rt cmd" and ?em = "exit_marker rt cmd"
  from assms(1) obtain raw_out raw_err where
    rd: "HostShell_read rt (Some (safe_cmd cmd)) (Some ?cm) (Some ?sm) wait 120000 (reader env) = Some (Inr (raw_out, raw_err))"
    and res: "exec_result ?em raw_out raw_err = Inr res"
    by (auto simp: HostShell_exec_def split: if_splits sum.splits option.splits prod.splits)
  from HostShell_read_success [OF rd marker_nonempty(3) marker_nonempty(1) marker_nonempty(2)]
  obtain out err where cm: "sublist ?cm out" and sm: "sublist ?sm err"
    and ro: "raw_out = slice_to out (str_find out ?cm)" and re: "raw_err = slice_to err (str_find err ?sm)"
    by blast
  from res obtain out' code where ex: "extract_exit_code ?em raw_out = Inr (out', code)"
    and so: "stdout res = cut_exit_prefix out'" and se: "stderr res = raw_err"
    by (auto simp: exec_result_def split: sum.splits)
  have no_cm_raw: "\<not> sublist ?cm raw_out"
    unfolding ro by (rule slice_find_no_marker [OF marker_nonempty(1) cm])
  have "\<not> sublist ?cm out'"
    by (rule extract_keeps_out [OF ex exit_marker_nonempty no_cm_raw
          command_marker_no_newline [OF assms(2)] marker_nonempty(1)])
  with cut_exit_prefix_sublist [of out'] so have 1: "\<not> sublist ?cm (stdout res)"
    by (auto dest: sublist_order.order.trans)
  have 3: "\<not> sublist exit_prefix (stdout res)" unfolding so by (rule cut_exit_prefix_clean)
  with exit_prefix_in_marker [of rt cmd] have 2: "\<not> sublist ?em (stdout res)"
    by (auto dest: sublist_order.order.trans)
  have 4: "\<not> sublist ?sm (stderr res)"
    unfolding se re by (rule slice_find_no_marker [OF marker_nonempty(2) sm])
  from cm sm se re ro res have 5: "\<exists>out err. sublist ?cm out \<and> sublist ?sm err \<and>
            stderr res = slice_to err (str_find err ?sm) \<and>
            exec_result ?em (slice_to out (str_find out ?cm)) (stderr res) = Inr res"
    by auto
  from 1 2 3 4 5 show ?thesis by blast
qed

theorem markers_stripped_witness:
  "snd (HostShell_exec sample_runtime ''printf foo'' True printf_env) =
     Some (Inr \<lparr>stdout = ''foo'', stderr = [], exit_code = PyInt 0\<rparr>) \<and>
   CHR ''\<newline>'' \<notin> set (session_id sample_runtime) \<and>
   \<not> sublist (command_marker sample_runtime ''printf foo'') ''foo'' \<and>
   \<not> sublist (exit_marker sample_runtime ''printf foo'') ''foo'' \<and>
   \<not> sublist (stderr_marker sample_runtime ''printf foo'') []"
proof -
  have a: "CHR ''\<newline>'' \<notin> set (session_id sample_runtime)" by (simp add: sample_runtime_def)
  from markers_stripped [OF printf_exec a] printf_exec a show ?thesis by simp
qed

text \<open>
  C1 as stated fails: with \<^verbatim>\<open>set -x\<close> on, the trace of the marker commands reaches
  the standard error before the stderr-end marker, and the returned error text contains
  the command-end marker of this call.
\<close>

theorem stderr_keeps_command_marker:
  "snd (HostShell_exec sample_runtime ''ls'' True xtrace_env) =
     Some (Inr \<lparr>stdout = [], stderr = ''+ echo __CMD_END_s1_-7__\<newline>+ printf '',
                exit_code = PyInt 0\<rparr>) \<and>
   sublist (command_marker sample_runtime ''ls'') ''+ echo __CMD_END_s1_-7__\<newline>+ printf ''"
proof -
  have "stdin_open xtrace_env" by (simp add: xtrace_env_def)
  from exec_read [OF ls_not_interactive this, of sample_runtime True]
  have "snd (HostShell_exec sample_runtime ''ls'' True xtrace_env) =
     Some (Inr \<lparr>stdout = [], stderr = ''+ echo __CMD_END_s1_-7__\<newline>+ printf '',
                exit_code = PyInt 0\<rparr>)"
    by (simp add: ls_command_marker ls_stderr_marker ls_exit_marker safe_cmd_def
        xtrace_read xtrace_result)
  moreover have "sublist ''__CMD_END_s1_-7__'' ''+ echo __CMD_END_s1_-7__\<newline>+ printf ''"
    by code_simp
  ultimately show ?thesis by (simp add: ls_command_marker)
qed

section \<open>How a read fails\<close>

lemma read_loop_total:
  "tks \<noteq> [] \<Longrightarrow> end_time \<le> now + sum_list (map elapsed tks) \<Longrightarrow>
   read_loop rt cmd cm sm wait end_time now s tks \<noteq> None"
proof (induction tks arbitrary: now s)
  case Nil
  then show ?case by simp
next
  case (Cons tk tks)
  show ?case
  proof (cases "now + elapsed tk < end_time")
    case False
    then show ?thesis by (simp add: Let_def)
  next
    case True
    with Cons.prems have ne: "tks \<noteq> []" by (cases tks) auto
    from Cons.prems have le: "end_time \<le> (now + elapsed tk) + sum_list (map elapsed tks)" by simp
    note ih = Cons.IH [OF ne le]
    from True ih show ?thesis
      by (auto simp: Let_def split: sum.splits bool.splits prod.splits)
  qed
qed

lemma partial_poll:
  "poll_streams sample_runtime (Some ''__CMD_END_s1_-7__'') (Some ''__STDERR_END_s1_-7__'')
     init_rstate partial_tick =
   Inr (\<lparr>buf_stderr = [], buf_stdout = ''partial'', stdout_data = Some ''partial'',
         stderr_data = Some [], status_stdout = False, status_stderr = False\<rparr>, False)"
  by code_simp

lemma read_loop_continue:
  assumes "now + elapsed tk < end_time" and "c \<noteq> []"
    and "wait \<longrightarrow> snd (has_command_exited rt c (ps_output tk)) = Inr True"
    and "poll_streams rt cm sm s tk = Inr (s', False)"
  shows "read_loop rt (Some c) cm sm wait end_time now s (tk # tks) =
           read_loop rt (Some c) cm sm wait end_time (now + elapsed tk) s' tks"
  using assms by (simp add: Let_def)

lemma read_loop_deadline:
  "\<not> now + elapsed tk < end_time \<Longrightarrow>
   read_loop rt cmd cm sm wait end_time now s (tk # tks) = Some (Inr (s, now + elapsed tk))"
  by (simp add: Let_def)

lemma timeout_loop:
  "read_loop sample_runtime (Some ''ls'') (Some ''__CMD_END_s1_-7__'') (Some ''__STDERR_END_s1_-7__'')
     True (start_time timeout_env + 120000) (start_time timeout_env) init_rstate (ticks timeout_env) =
   Some (Inr (\<lparr>buf_stderr = [], buf_stdout = ''partial'', stdout_data = Some ''partial'',
         stderr_data = Some [], status_stdout = False, status_stderr = False\<rparr>, 120010))"
proof -
  have e: "elapsed partial_tick = 10" "ps_output partial_tick = []" "elapsed late_tick = 120000"
    by (simp_all add: partial_tick_def late_tick_def)
  have "read_loop sample_runtime (Some ''ls'') (Some ''__CMD_END_s1_-7__'')
          (Some ''__STDERR_END_s1_-7__'') True 120000 0 init_rstate [partial_tick, late_tick] =
        read_loop sample_runtime (Some ''ls'') (Some ''__CMD_END_s1_-7__'')
          (Some ''__STDERR_END_s1_-7__'') True 120000 (0 + elapsed partial_tick)
          \<lparr>buf_stderr = [], buf_stdout = ''partial'', stdout_data = Some ''partial'',
            stderr_data = Some [], status_stdout = False, status_stderr = False\<rparr> [late_tick]"
    by (rule read_loop_continue [OF _ _ _ partial_poll]) (simp_all add: e ls_exited)
  also have "\<dots> = Some (Inr (\<lparr>buf_stderr = [], buf_stdout = ''partial'',
            stdout_data = Some ''partial'', stderr_data = Some [], status_stdout = False,
            status_stderr = False\<rparr>, 0 + elapsed partial_tick + elapsed late_tick))"
    by (rule read_loop_deadline) (simp add: e)
  finally show ?thesis by (simp add: timeout_env_def e)
qed

lemma crash_exited: "snd (has_command_exited sample_runtime ''ls &&'' []) = Inl IndexError"
  by code_simp

text \<open>
  C8, as amended. For every local read that passes its argument check and whose polling
  loop ends without an exception: if the shell process has exited, the read fails with
  the \<^verbatim>\<open>RuntimeError\<close> (the contract's \<open>ProcessExited\<close>) whose message holds both
  accumulated buffers; otherwise, if the clock has reached the end time, it fails with
  the \<^verbatim>\<open>TimeoutError\<close> (the contract's \<open>ReadTimeout\<close>) whose message holds the
  buffers and the note on interactive commands. Once the time covered by the rounds
  reaches the timeout, the read does return one of its outcomes.
\<close>

theorem read_failures:
  "(\<not> (wait \<and> cmd = None) \<and>
    read_loop rt cmd cm sm wait (start_time env + timeout) (start_time env) init_rstate (ticks env)
      = Some (Inr (s, now)) \<longrightarrow>
      (returncode env \<noteq> None \<longrightarrow>
         HostShell_read rt cmd cm sm wait timeout env =
           Some (Inl (RuntimeError
             [Lit ''Subprocess exited unexpectedly.\<newline>Current buffer: '',
              BufferRepr (buf_stderr s) (buf_stdout s)]))) \<and>
      (returncode env = None \<and> start_time env + timeout \<le> now + final_elapsed env \<longrightarrow>
         HostShell_read rt cmd cm sm wait timeout env =
           Some (Inl (TimeoutError
             [Lit ''Timeout reached while reading from subprocess.\<newline>Current buffer: '',
              BufferRepr (buf_stderr s) (buf_stdout s),
              Lit (''. Note that interactive commands are not supported '' @
                   ''and can timeout. Use a corresponding non-interactive command if possible.'')]))))
   \<and> (ticks env \<noteq> [] \<and> timeout \<le> sum_list (map elapsed (ticks env)) \<longrightarrow>
        HostShell_read rt cmd cm sm wait timeout env \<noteq> None)"
proof -
  have "HostShell_read rt cmd cm sm wait timeout env \<noteq> None"
    if "ticks env \<noteq> []" "timeout \<le> sum_list (map elapsed (ticks env))"
  proof -
    from that have "start_time env + timeout \<le> start_time env + sum_list (map elapsed (ticks env))"
      by simp
    from read_loop_total [OF that(1) this, of rt cmd cm sm wait init_rstate]
    show ?thesis
      by (auto simp: HostShell_read_def Let_def split: option.splits sum.splits prod.splits)
  qed
  then show ?thesis
    by (auto simp: HostShell_read_def Let_def exited_message_def timeout_message_def)
qed

theorem read_failures_witness:
  "HostShell_read sample_runtime (Some ''ls'') (Some ''__CMD_END_s1_-7__'')
     (Some ''__STDERR_END_s1_-7__'') True 120000 timeout_env =
     Some (Inl (TimeoutError
       [Lit ''Timeout reached while reading from subprocess.\<newline>Current buffer: '',
        BufferRepr [] ''partial'',
        Lit (''. Note that interactive commands are not supported '' @
             ''and can timeout. Use a corresponding non-interactive command if possible.'')])) \<and>
   HostShell_read sample_runtime (Some ''ls'') (Some ''__CMD_END_s1_-7__'')
     (Some ''__STDERR_END_s1_-7__'') True 120000 (timeout_env\<lparr>returncode := Some 1\<rparr>) =
     Some (Inl (RuntimeError
       [Lit ''Subprocess exited unexpectedly.\<newline>Current buffer: '',
        BufferRepr [] ''partial'']))"
proof -
  have a: "returncode timeout_env = None" "final_elapsed timeout_env = 5" "start_time timeout_env = 0"
    by (simp_all add: timeout_env_def)
  have b: "read_loop sample_runtime (Some ''ls'') (Some ''__CMD_END_s1_-7__'') (Some ''__STDERR_END_s1_-7__'')
     True (start_time (timeout_env\<lparr>returncode := Some 1\<rparr>) + 120000) (start_time (timeout_env\<lparr>returncode := Some 1\<rparr>))
       init_rstate (ticks (timeout_env\<lparr>returncode := Some 1\<rparr>)) =
   Some (Inr (\<lparr>buf_stderr = [], buf_stdout = ''partial'', stdout_data = Some ''partial'',
         stderr_data = Some [], status_stdout = False, status_stderr = False\<rparr>, 120010))"
    using timeout_loop by simp
  from read_failures [of True "Some ''ls''" sample_runtime "Some ''__CMD_END_s1_-7__''"
      "Some ''__STDERR_END_s1_-7__''" timeout_env 120000 _ 120010] timeout_loop a
    read_failures [of True "Some ''ls''" sample_runtime "Some ''__CMD_END_s1_-7__''"
      "Some ''__STDERR_END_s1_-7__''" "timeout_env\<lparr>returncode := Some 1\<rparr>" 120000 _ 120010] b
  show ?thesis by simp
qed

text \<open>
  C8 as stated fails: for a process that has exited, a read with \<^verbatim>\<open>wait\<close> set and no
  command is refused by the argument check, and a read that waits for \<^verbatim>\<open>ls &&\<close> leaves
  by the \<^verbatim>\<open>IndexError\<close> of the completion check; neither reaches the liveness check.
\<close>

theorem read_fails_before_liveness_check:
  "returncode exited_env = Some 0 \<and>
   HostShell_read sample_runtime None None None True 120000 exited_env =
     Some (Inl (ValueError cmd_none_message)) \<and>
   HostShell_read sample_runtime (Some ''ls &&'') (Some ''__CMD_END_s1_-4__'')
     (Some ''__STDERR_END_s1_-4__'') True 120000 exited_env = Some (Inl IndexError)"
  by (simp add: HostShell_read_def exited_env_def Let_def sample_tick_def crash_exited)

section \<open>The completion check on an empty clause\<close>

lemma all_nowait_crash:
  "(all_nowait cs = Inl IndexError) =
     (\<exists>pre c post. cs = pre @ c # post \<and> (\<forall>x\<in>set pre. fast_clause x) \<and> split_ws c = [])"
proof (induction cs)
  case Nil
  show ?case by simp
next
  case (Cons x cs)
  show ?case
  proof (cases "split_ws x")
    case Nil
    then have "x # cs = [] @ x # cs \<and> (\<forall>y\<in>set []. fast_clause y) \<and> split_ws x = []" by simp
    then have "\<exists>pre c post. x # cs = pre @ c # post \<and> (\<forall>y\<in>set pre. fast_clause y) \<and> split_ws c = []"
      by blast
    with Nil show ?thesis by simp
  next
    case (Cons tok rest)
    show ?thesis
    proof (cases "tok \<in> set NOWAIT_CMDS")
      case True
      with Cons have fx: "fast_clause x" by (simp add: fast_clause_def first_token_def)
      have "(\<exists>pre c post. x # cs = pre @ c # post \<and> (\<forall>y\<in>set pre. fast_clause y) \<and> split_ws c = [])
          = (\<exists>pre c post. cs = pre @ c # post \<and> (\<forall>y\<in>set pre. fast_clause y) \<and> split_ws c = [])"
        (is "?L = ?R")
      proof
        assume ?L
        then obtain pre c post where p: "x # cs = pre @ c # post" "\<forall>y\<in>set pre. fast_clause y" "split_ws c = []"
          by blast
        with Cons obtain pre' where "pre = x # pre'" by (cases pre) auto
        with p show ?R by auto
      next
        assume ?R
        then obtain pre c post where p: "cs = pre @ c # post" "\<forall>y\<in>set pre. fast_clause y" "split_ws c = []"
          by blast
        with fx have "x # cs = (x # pre) @ c # post \<and> (\<forall>y\<in>set (x # pre). fast_clause y) \<and> split_ws c = []"
          by simp
        then show ?L by blast
      qed
      with True Cons Cons.IH show ?thesis by simp
    next
      case False
      with Cons have nfx: "\<not> fast_clause x" by (simp add: fast_clause_def first_token_def)
      have "\<not> (\<exists>pre c post. x # cs = pre @ c # post \<and> (\<forall>y\<in>set pre. fast_clause y) \<and> split_ws c = [])"
      proof
        assume "\<exists>pre c post. x # cs = pre @ c # post \<and> (\<forall>y\<in>set pre. fast_clause y) \<and> split_ws c = []"
        then obtain pre c post where p: "x # cs = pre @ c # post" "\<forall>y\<in>set pre. fast_clause y" "split_ws c = []"
          by blast
        show False
        proof (cases pre)
          case Nil
          with p Cons show False by simp
        next
          case (Cons a list)
          with p nfx show False by simp
        qed
      qed
      with False Cons show ?thesis by simp
    qed
  qed
qed

lemma has_command_exited_crash:
  "(snd (has_command_exited rt cmd ps_out) = Inl IndexError) =
   (all_nowait (map strip (str_split ''&&'' cmd)) = Inl IndexError)"
  by (auto simp: has_command_exited_def Let_def split: sum.splits bool.splits option.splits
      dest: all_nowait_error)

lemma crash_not_interactive: "\<not> is_interactive_command ''ls &&''"
  by code_simp

text \<open>
  C10, as amended. \<^verbatim>\<open>_has_command_exited\<close> raises \<^verbatim>\<open>IndexError\<close> exactly for the commands
  in which a clause without a token (empty or blank, between \<^verbatim>\<open>&&\<close> separators) comes
  after nothing but clauses whose first token is in the allowlist: \<^verbatim>\<open>all\<close> stops at
  the first clause outside the allowlist and never reaches a later empty clause. A
  waiting local \<^verbatim>\<open>exec\<close> of such a command, not empty, not rejected by the guard and
  written to an open pipe, fails with that \<^verbatim>\<open>IndexError\<close> in the first round of the
  reader.
\<close>

theorem empty_clause_crash:
  "(snd (has_command_exited rt cmd ps_out) = Inl IndexError) =
     (\<exists>pre c post. map strip (str_split ''&&'' cmd) = pre @ c # post \<and>
        (\<forall>x\<in>set pre. fast_clause x) \<and> split_ws c = [])
   \<and> (snd (has_command_exited rt cmd (ps_output tk)) = Inl IndexError \<and> cmd \<noteq> [] \<and>
      \<not> is_interactive_command cmd \<and> stdin_open env \<and> ticks (reader env) = tk # tks \<and>
      elapsed tk < 120000 \<longrightarrow>
      snd (HostShell_exec rt cmd True env) = Some (Inl IndexError))"
proof -
  have "snd (HostShell_exec rt cmd True env) = Some (Inl IndexError)"
    if "snd (has_command_exited rt cmd (ps_output tk)) = Inl IndexError" "cmd \<noteq> []"
      "\<not> is_interactive_command cmd" "stdin_open env" "ticks (reader env) = tk # tks"
      "elapsed tk < 120000"
    using that
    by (simp add: HostShell_exec_def HostShell_write_def HostShell_read_def safe_cmd_def Let_def)
  then show ?thesis
    unfolding has_command_exited_crash all_nowait_crash by blast
qed

theorem empty_clause_crash_witness:
  "snd (has_command_exited sample_runtime ''ls &&'' []) = Inl IndexError \<and>
   snd (HostShell_exec sample_runtime ''ls &&'' True sample_env) = Some (Inl IndexError)"
proof -
  have a: "snd (has_command_exited sample_runtime ''ls &&'' (ps_output sample_tick)) = Inl IndexError"
    using crash_exited by (simp add: sample_tick_def)
  have b: "stdin_open sample_env" "ticks (reader sample_env) = sample_tick # []"
    "elapsed sample_tick < 120000"
    by (simp_all add: sample_env_def sample_tick_def)
  from empty_clause_crash [of sample_runtime "''ls &&''" _ sample_tick sample_env "[]"]
    a b crash_not_interactive crash_exited
  show ?thesis by simp
qed

text \<open>
  C10 as stated fails: \<^verbatim>\<open>make &&\<close> has an empty clause, and the completion check
  returns from the process listing without an \<^verbatim>\<open>IndexError\<close>.
\<close>

theorem empty_clause_without_crash:
  "str_split ''&&'' ''make &&'' = [''make '', []] \<and>
   has_command_exited sample_runtime ''make &&'' [] = ([RunPs], Inr True)"
  by code_simp

text \<open>
  For a command in which every clause has a token, the check follows the stated policy:
  the short delay when every clause is fast, and otherwise the process listing without
  its first line, answered by whether no trimmed line is a clause or a clause followed
  by a space.
\<close>

lemma all_nowait_fast: "(all_nowait cs = Inr True) = (\<forall>c\<in>set cs. fast_clause c)"
  by (induction cs) (auto simp: fast_clause_def first_token_def split: list.splits)

lemma ps_loop_iff:
  "ps_loop commands ps =
     (\<forall>p\<in>set ps. \<forall>c\<in>set commands. strip p \<noteq> c \<and> \<not> prefix (c @ '' '') (strip p))"
  by (induction ps) (auto simp: Let_def list_ex_iff)

lemma completion_policy:
  assumes "\<forall>c\<in>set (map strip (str_split ''&&'' cmd)). split_ws c \<noteq> []"
  shows "has_command_exited rt cmd ps_out =
     (if \<forall>c\<in>set (map strip (str_split ''&&'' cmd)). fast_clause c then ([Sleep 300], Inr True)
      else case decode rt ps_out of
             None \<Rightarrow> ([RunPs], Inl UnicodeDecodeError)
           | Some listing \<Rightarrow>
               ([RunPs],
                Inr (\<forall>p\<in>set (tl (splitlines listing)).
                     \<forall>c\<in>set (map strip (str_split ''&&'' cmd)).
                       strip p \<noteq> c \<and> \<not> prefix (c @ '' '') (strip p))))"
proof -
  let ?cs = "map strip (str_split ''&&'' cmd)"
  have "all_nowait ?cs \<noteq> Inl IndexError"
  proof
    assume "all_nowait ?cs = Inl IndexError"
    then obtain pre c post where "?cs = pre @ c # post" "split_ws c = []"
      unfolding all_nowait_crash by blast
    moreover from this(1) have "c \<in> set ?cs" by (metis in_set_conv_decomp)
    ultimately show False using assms by blast
  qed
  then obtain b where b: "all_nowait ?cs = Inr b"
    using all_nowait_error [of ?cs] by (cases "all_nowait ?cs") auto
  with all_nowait_fast [of ?cs] have fast: "b = (\<forall>c\<in>set ?cs. fast_clause c)" by auto
  show ?thesis
  proof (cases b)
    case True
    with b fast show ?thesis by (simp add: has_command_exited_def Let_def)
  next
    case False
    with b have "all_nowait ?cs = Inr False" by simp
    moreover from False fast have "\<not> (\<forall>c\<in>set ?cs. fast_clause c)" by simp
    ultimately show ?thesis
      by (simp add: has_command_exited_def Let_def ps_loop_iff split: option.splits)
  qed
qed

text \<open>
  C6. The completion check evaluated where it leaves the stated policy: a command with
  an empty clause behind fast clauses is neither answered after the short delay nor
  looked up in the process listing, it raises \<^verbatim>\<open>IndexError\<close>. The last line shows
  that the first line of the listing is never compared.
\<close>

theorem fast_check_crashes:
  "has_command_exited rt ''cd /tmp &&'' ps_out = ([], Inl IndexError) \<and>
   has_command_exited rt (''ls '' @ [CHR 0x22] @ ''&&&&'' @ [CHR 0x22]) ps_out = ([], Inl IndexError) \<and>
   has_command_exited sample_runtime ''sleep 5'' ''sleep 5\<newline>bash\<newline>'' = ([RunPs], Inr True)"
proof -
  have a: "all_nowait (map strip (str_split ''&&'' ''cd /tmp &&'')) = Inl IndexError" by code_simp
  have b: "all_nowait (map strip (str_split ''&&'' (''ls '' @ [CHR 0x22] @ ''&&&&'' @ [CHR 0x22]))) = Inl IndexError"
    by code_simp
  have c: "has_command_exited sample_runtime ''sleep 5'' ''sleep 5\<newline>bash\<newline>'' = ([RunPs], Inr True)"
    by code_simp
  from a b c show ?thesis by (simp add: has_command_exited_def)
qed

section \<open>The remote exit status\<close>

lemma str_split_nonempty: "str_split sep s \<noteq> []"
  by (simp add: str_split_def split_sep_aux_nonempty)

lemma parse_status_total: "parse_status response = Inr (status_of_response response)"
  using str_split_nonempty [of "''\<newline>''"]
  by (auto simp: parse_status_def status_of_response_def int_or_one_def strip_def
      split: sum.splits list.splits)

lemma exit_status_shape:
  "SSHShell_exit_status rt rcv =
     ([Send (encode rt ''echo $?\<newline>''), Sleep 50],
      Inr (status_of_response (fst (SSHShell_read rt rcv))), snd (SSHShell_read rt rcv))"
  by (simp add: SSHShell_exit_status_def SSHShell_send_def status_query_def parse_status_total
      split: prod.splits)

text \<open>
  C4, as amended. A local \<^verbatim>\<open>exec\<close> that returns a result returns an integer exit code.
  A remote \<^verbatim>\<open>exec\<close> sends \<^verbatim>\<open>echo $?\<close> after the clauses of the command and returns
  the exit code as the decimal text of an integer: the response to the query is split
  at newlines, its only line, or else its second line, is trimmed and parsed, and a
  failure to decode or to parse gives 1.
\<close>

theorem exit_code_values:
  "(snd (HostShell_exec rt cmd wait henv) = Some (Inr res) \<longrightarrow> (\<exists>n. exit_code res = PyInt n))
   \<and> (ssh_exec_loop rt wait (str_split '' && '' cmd) [] env = Some (effs, Inr (collected, env')) \<longrightarrow>
        SSHShell_exec rt cmd wait env =
          Some (effs @ [Send (encode rt ''echo $?\<newline>''), Sleep 50],
                Inr \<lparr>stdout = collected, stderr = [],
                     exit_code = PyStr (str_of_int
                       (status_of_response (fst (SSHShell_read rt (received env')))))\<rparr>))
   \<and> (SSHShell_exec rt cmd wait env = Some (effs', Inr res') \<longrightarrow>
        (\<exists>n. exit_code res' = PyStr (str_of_int n)))"
proof -
  have 1: "\<exists>n. exit_code res = PyInt n" if "snd (HostShell_exec rt cmd wait henv) = Some (Inr res)"
    using that
    by (auto simp: HostShell_exec_def exec_result_def
        split: if_splits sum.splits option.splits prod.splits)
  have 2: "SSHShell_exec rt cmd wait env =
          Some (effs @ [Send (encode rt ''echo $?\<newline>''), Sleep 50],
                Inr \<lparr>stdout = collected, stderr = [],
                     exit_code = PyStr (str_of_int
                       (status_of_response (fst (SSHShell_read rt (received env')))))\<rparr>)"
    if "ssh_exec_loop rt wait (str_split '' && '' cmd) [] env = Some (effs, Inr (collected, env'))"
    using that by (simp add: SSHShell_exec_def exit_status_shape)
  have 3: "\<exists>n. exit_code res' = PyStr (str_of_int n)"
    if "SSHShell_exec rt cmd wait env = Some (effs', Inr res')"
    using that
    by (auto simp: SSHShell_exec_def exit_status_shape split: option.splits sum.splits prod.splits)
  from 1 2 3 show ?thesis by blast
qed

lemma make_loop:
  "ssh_exec_loop sample_runtime True (str_split '' && '' ''make all'') [] make_env =
     Some ([Send ''make all\<newline>'', Sleep 50, ExecCommand ''ps -eo command''],
           Inr (''done\<newline>'',
                \<lparr>ps_outputs = [],
                 received = [(''echo $?'' @ crlf @ ''0'' @ crlf @ ''late'' @ crlf, [])]\<rparr>))"
  by code_simp

lemma make_status:
  "str_of_int (status_of_response (fst (SSHShell_read sample_runtime
      [(''echo $?'' @ crlf @ ''0'' @ crlf @ ''late'' @ crlf, [])]))) = ''0''"
  by code_simp

theorem exit_code_values_witness:
  "snd (HostShell_exec sample_runtime ''printf foo'' True printf_env) =
     Some (Inr \<lparr>stdout = ''foo'', stderr = [], exit_code = PyInt 0\<rparr>) \<and>
   SSHShell_exec sample_runtime ''make all'' True make_env =
     Some ([Send ''make all\<newline>'', Sleep 50, ExecCommand ''ps -eo command'',
            Send ''echo $?\<newline>'', Sleep 50],
           Inr \<lparr>stdout = ''done\<newline>'', stderr = [], exit_code = PyStr ''0''\<rparr>)"
proof -
  have e: "encode sample_runtime = id" by (simp add: sample_runtime_def)
  from exit_code_values [where rt = sample_runtime and cmd = "''make all''" and wait = True
      and henv = printf_env and env = make_env
      and res = "\<lparr>stdout = ''foo'', stderr = [], exit_code = PyInt 0\<rparr>"
      and effs = "[Send ''make all\<newline>'', Sleep 50, ExecCommand ''ps -eo command'']"
      and collected = "''done\<newline>''"
      and env' = "\<lparr>ps_outputs = [],
                 received = [(''echo $?'' @ crlf @ ''0'' @ crlf @ ''late'' @ crlf, [])]\<rparr>"
      and effs' = "[]" and res' = "\<lparr>stdout = [], stderr = [], exit_code = PyInt 0\<rparr>"]
    exit_code_values [where rt = sample_runtime and cmd = "''printf foo''" and wait = True
      and henv = printf_env and env = make_env
      and res = "\<lparr>stdout = ''foo'', stderr = [], exit_code = PyInt 0\<rparr>"
      and effs = "[]" and collected = "[]" and env' = make_env
      and effs' = "[]" and res' = "\<lparr>stdout = [], stderr = [], exit_code = PyInt 0\<rparr>"]
    make_loop make_status printf_exec
  show ?thesis by (simp add: e)
qed

text \<open>
  C4 as stated fails: the remote \<^verbatim>\<open>exec\<close> returns the exit code as text, not as an
  integer, and for a response with a late line behind the status it returns 0 where the
  last line that is not blank does not parse and would give 1.
\<close>

theorem remote_exit_code_is_text:
  "SSHShell_exec sample_runtime ''make all'' True make_env =
     Some ([Send ''make all\<newline>'', Sleep 50, ExecCommand ''ps -eo command'',
            Send ''echo $?\<newline>'', Sleep 50],
           Inr \<lparr>stdout = ''done\<newline>'', stderr = [], exit_code = PyStr ''0''\<rparr>) \<and>
   exit_status_spec (''echo $?'' @ crlf @ ''0'' @ crlf @ ''late'' @ crlf) = 1"
  by code_simp

section \<open>Waiting in the remote session\<close>

lemma split_space:
  "split_sep_aux '' '' acc (c # cs) =
     (if c = CHR '' '' then acc # split_sep_aux '' '' [] cs
      else split_sep_aux '' '' (acc @ [c]) cs)"
  by auto

lemma split_no_space: "CHR '' '' \<notin> set s \<Longrightarrow> split_sep_aux '' '' acc s = [acc @ s]"
  by (induction s arbitrary: acc) (auto simp add: split_space simp del: split_sep_aux.simps(2))

lemma split_with_space:
  "CHR '' '' \<in> set s \<Longrightarrow> \<exists>a b r. split_sep_aux '' '' acc s = a # b # r"
proof (induction s arbitrary: acc)
  case Nil
  then show ?case by simp
next
  case (Cons c cs)
  show ?case
  proof (cases "c = CHR '' ''")
    case True
    obtain b r where "split_sep_aux '' '' [] cs = b # r"
      using split_sep_aux_nonempty by (meson neq_Nil_conv)
    with True show ?thesis by (simp add: split_space del: split_sep_aux.simps(2))
  next
    case False
    with Cons.prems have "CHR '' '' \<in> set cs" by simp
    from Cons.IH [OF this, of "acc @ [c]"] False show ?thesis
      by (simp add: split_space del: split_sep_aux.simps(2))
  qed
qed

lemma wait_skip:
  assumes "hd (str_split '' '' c) \<in> set NOWAIT_CMDS \<or> CHR '' '' \<notin> set c"
  shows "SSHShell_wait rt c outs = Some ([Sleep 300], Inr outs)"
proof (cases "CHR '' '' \<in> set c")
  case False
  then show ?thesis by (simp add: SSHShell_wait_def str_split_def split_no_space)
next
  case True
  from split_with_space [OF True, of "[]"] obtain a b r where
    s: "str_split '' '' c = a # b # r" by (auto simp: str_split_def)
  with assms True show ?thesis by (simp add: SSHShell_wait_def)
qed

lemma wait_polls:
  assumes "hd (str_split '' '' c) \<notin> set NOWAIT_CMDS" and "CHR '' '' \<in> set c"
  shows "SSHShell_wait rt c outs = wait_loop rt c outs"
proof -
  from split_with_space [OF assms(2), of "[]"] obtain a b r where
    s: "str_split '' '' c = a # b # r" by (auto simp: str_split_def)
  with assms show ?thesis by (simp add: SSHShell_wait_def)
qed

lemma busy_free: "busy_listing rt c b \<Longrightarrow> \<not> free_listing rt c b"
  by (auto simp: busy_listing_def free_listing_def list_ex_iff list_all_iff split: option.splits)

lemma wait_loop_busy:
  "\<forall>b\<in>set busy. busy_listing rt c b \<Longrightarrow> wait_loop rt c busy = None"
proof (induction busy)
  case Nil
  show ?case by simp
next
  case (Cons b busy)
  then have "busy_listing rt c b" by simp
  then obtain t where "decode rt b = Some t"
    "\<not> list_all (\<lambda>line. \<not> suffix c (rstrip (lstrip line))) (str_split ''\<newline>'' t)"
    by (auto simp: busy_listing_def strip_def list_ex_iff list_all_iff split: option.splits)
  with Cons show ?case by simp
qed

lemma wait_loop_until_free:
  assumes "\<forall>b\<in>set busy. busy_listing rt c b" and "free_listing rt c free"
  shows "wait_loop rt c (busy @ free # rest) =
     Some (concat (map (\<lambda>b. [ExecCommand ps_command, Sleep 300]) busy) @ [ExecCommand ps_command],
           Inr rest)"
  using assms(1)
proof (induction busy)
  case Nil
  from assms(2) obtain t where "decode rt free = Some t"
    "list_all (\<lambda>line. \<not> suffix c (rstrip (lstrip line))) (str_split ''\<newline>'' t)"
    by (auto simp: free_listing_def strip_def split: option.splits)
  then show ?case by simp
next
  case (Cons b busy)
  then have "busy_listing rt c b" by simp
  then obtain t where "decode rt b = Some t"
    "\<not> list_all (\<lambda>line. \<not> suffix c (rstrip (lstrip line))) (str_split ''\<newline>'' t)"
    by (auto simp: busy_listing_def strip_def list_ex_iff list_all_iff split: option.splits)
  with Cons show ?case by simp
qed

text \<open>
  C9, as amended. \<^verbatim>\<open>SSHShell._wait\<close> sleeps the fixed short delay and issues no
  listing command when the text of the clause before its first space is in the
  allowlist, and also when the clause has no space at all (a command without
  arguments). For every other clause it issues \<^verbatim>\<open>ps -eo command\<close> on the side
  channel, sleeps the fixed retry delay after each listing in which a trimmed line ends
  with the clause, and returns at the first listing without such a line; while every
  listing has such a line it does not return.
\<close>

theorem remote_wait:
  "(hd (str_split '' '' c) \<in> set NOWAIT_CMDS \<or> CHR '' '' \<notin> set c \<longrightarrow>
      SSHShell_wait rt c outs = Some ([Sleep 300], Inr outs))
   \<and> (hd (str_split '' '' c) \<notin> set NOWAIT_CMDS \<and> CHR '' '' \<in> set c \<and>
      (\<forall>b\<in>set busy. busy_listing rt c b) \<longrightarrow>
        SSHShell_wait rt c busy = None \<and>
        (free_listing rt c free \<longrightarrow>
           SSHShell_wait rt c (busy @ free # rest) =
             Some (concat (map (\<lambda>b. [ExecCommand ps_command, Sleep 300]) busy) @
                   [ExecCommand ps_command], Inr rest)))"
  using wait_skip [of c rt outs] wait_polls [of c rt] wait_loop_busy [of busy rt c]
    wait_loop_until_free [of busy rt c free rest]
  by auto

theorem remote_wait_witness:
  "CHR '' '' \<in> set ''make all'' \<and>
   busy_listing sample_runtime ''make all'' ''bash\<newline>make all\<newline>'' \<and>
   free_listing sample_runtime ''make all'' ''bash\<newline>'' \<and>
   SSHShell_wait sample_runtime ''make all'' [''bash\<newline>make all\<newline>'', ''bash\<newline>'', ''later''] =
     Some ([ExecCommand ''ps -eo command'', Sleep 300, ExecCommand ''ps -eo command''], Inr [''later'']) \<and>
   SSHShell_wait sample_runtime ''make all'' [''bash\<newline>make all\<newline>''] = None \<and>
   SSHShell_wait sample_runtime ''ls -la'' [''bash\<newline>ls -la\<newline>''] =
     Some ([Sleep 300], Inr [''bash\<newline>ls -la\<newline>''])"
proof -
  have a: "hd (str_split '' '' ''make all'') \<notin> set NOWAIT_CMDS" by code_simp
  have b: "CHR '' '' \<in> set ''make all''" by simp
  have c: "busy_listing sample_runtime ''make all'' ''bash\<newline>make all\<newline>''" by code_simp
  have d: "free_listing sample_runtime ''make all'' ''bash\<newline>''" by code_simp
  have e: "hd (str_split '' '' ''ls -la'') \<in> set NOWAIT_CMDS" by code_simp
  from remote_wait [of "''make all''" sample_runtime "[]" "[''bash\<newline>make all\<newline>'']"
      "''bash\<newline>''" "[''later'']"]
    remote_wait [of "''ls -la''" sample_runtime "[''bash\<newline>ls -la\<newline>'']" "[]" "[]" "[]"]
    a b c d e
  show ?thesis by (simp add: ps_command_def)
qed

text \<open>
  C9 as stated fails: \<^verbatim>\<open>make\<close> is not in the allowlist and a listed line ends with
  it, yet the wait only sleeps and issues no listing command.
\<close>

theorem remote_wait_skips_single_token:
  "hd (str_split '' '' ''make'') \<notin> set NOWAIT_CMDS \<and>
   busy_listing sample_runtime ''make'' ''bash\<newline>make\<newline>'' \<and>
   SSHShell_wait sample_runtime ''make'' [''bash\<newline>make\<newline>''] =
     Some ([Sleep 300], Inr [''bash\<newline>make\<newline>''])"
  by code_simp

end
